theory Spec2Isabelle
  imports Main "HOL-Library.Char_ord" "HOL-Library.List_Lexorder" "HOL-Library.Product_Lexorder"
begin

section \<open>Chat auto backup: a shallow embedding of \<^verbatim>\<open>index.js\<close>\<close>

text \<open>
  The plugin snapshots the active chat of the host application into an IndexedDB object
  store, deduplicates the snapshots of one chat by the index of their last message, keeps
  at most \<^verbatim>\<open>settings.maxTotalBackups\<close> snapshots overall, and can turn a stored
  snapshot back into a chat file of the host.

  Conventions of the embedding.
  \<^item> JavaScript values that went through \<^verbatim>\<open>response.json()\<close> are values of the type
    \<open>json\<close>; \<^verbatim>\<open>undefined\<close> is \<open>None\<close> of an option type. Numbers are integers;
    strings are byte strings (ASCII text is itself, other text is its UTF-8 bytes).
  \<^item> An object is the list of its members in the order \<^verbatim>\<open>JSON.stringify\<close> visits them.
  \<^item> A \<^verbatim>\<open>throw\<close> (or a rejected promise) is the value \<open>Threw e\<close>.
  \<^item> The module variables \<^verbatim>\<open>isBackupInProgress\<close> and \<^verbatim>\<open>backupTimeout\<close>, the
    object store, the timers of the runtime and the calls made to the host are fields of
    one state record that every operation takes and returns.
  \<^item> What the host and IndexedDB answer during one call (the context, the response of
    \<^verbatim>\<open>fetch\<close>, whether a transaction fails) is the record \<open>world\<close>.
  \<^item> One asynchronous function runs as one step: what other tasks do between two
    \<^verbatim>\<open>await\<close>s of a running function is outside this embedding.
  \<^item> \<^verbatim>\<open>console\<close> output and \<^verbatim>\<open>logDebug\<close> are not modelled.
\<close>

subsection \<open>JavaScript values\<close>

datatype json =
    JNull
  | JBool bool
  | JNum int
  | JStr string
  | JArr "json list"
  | JObj "(string \<times> json) list"

datatype error =
    TypeError
  | FetchRejected
  | HttpError nat
  | StorageError
  | CharacterInfoMissing
  | NoChatData
  | BadCharacterBackup
  | TargetCharacterNotFound
  | HostCallFailed
  | GroupImportFailed
  | CharacterSaveFailed
  | LoadFailed
  | NoNewChatId

datatype 'a outcome = Returned 'a | Threw error

text \<open>Truthiness of a value, as \<^verbatim>\<open>if (v)\<close>, \<^verbatim>\<open>!v\<close> and \<^verbatim>\<open>v || w\<close> test it.\<close>

fun truthy :: "json \<Rightarrow> bool" where
  "truthy JNull = False"
| "truthy (JBool b) = b"
| "truthy (JNum n) = (n \<noteq> 0)"
| "truthy (JStr s) = (s \<noteq> [])"
| "truthy (JArr xs) = True"
| "truthy (JObj fs) = True"

fun truthy_opt :: "json option \<Rightarrow> bool" where
  "truthy_opt None = False"
| "truthy_opt (Some v) = truthy v"

fun truthy_str :: "string option \<Rightarrow> bool" where
  "truthy_str None = False"
| "truthy_str (Some s) = (s \<noteq> [])"

text \<open>\<^verbatim>\<open>v || {}\<close> and \<^verbatim>\<open>s || d\<close>.\<close>

definition or_empty_object :: "json option \<Rightarrow> json" where
  "or_empty_object v = (case v of Some x \<Rightarrow> (if truthy x then x else JObj []) | None \<Rightarrow> JObj [])"

definition str_or :: "string option \<Rightarrow> string \<Rightarrow> string" where
  "str_or s d = (case s of Some x \<Rightarrow> (if x \<noteq> [] then x else d) | None \<Rightarrow> d)"

text \<open>
  Property reads. \<open>js_field p v\<close> is \<^verbatim>\<open>v.p\<close> for a name \<open>p\<close> that is neither
  \<^verbatim>\<open>length\<close> nor an index: only an object can have it, and reading it from
  \<^verbatim>\<open>null\<close> throws. \<open>js_field_opt\<close> reads from a value that may be
  \<^verbatim>\<open>undefined\<close>, which throws as well.
\<close>

fun js_field :: "string \<Rightarrow> json \<Rightarrow> error + json option" where
  "js_field p JNull = Inl TypeError"
| "js_field p (JObj fs) = Inr (map_of fs p)"
| "js_field p v = Inr None"

fun js_field_opt :: "string \<Rightarrow> json option \<Rightarrow> error + json option" where
  "js_field_opt p None = Inl TypeError"
| "js_field_opt p (Some v) = js_field p v"

fun js_length :: "json \<Rightarrow> error + json option" where
  "js_length JNull = Inl TypeError"
| "js_length (JArr xs) = Inr (Some (JNum (int (length xs))))"
| "js_length (JStr s) = Inr (Some (JNum (int (length s))))"
| "js_length (JObj fs) = Inr (map_of fs ''length'')"
| "js_length v = Inr None"

fun js_index0 :: "json \<Rightarrow> error + json option" where
  "js_index0 JNull = Inl TypeError"
| "js_index0 (JArr []) = Inr None"
| "js_index0 (JArr (x # xs)) = Inr (Some x)"
| "js_index0 (JStr []) = Inr None"
| "js_index0 (JStr (c # cs)) = Inr (Some (JStr [c]))"
| "js_index0 (JObj fs) = Inr (map_of fs ''0'')"
| "js_index0 v = Inr None"

text \<open>
  \<^verbatim>\<open>v[0] = x\<close> in a module (strict mode): an array and an object take the value,
  a primitive throws.
\<close>

fun set_member :: "string \<Rightarrow> json \<Rightarrow> (string \<times> json) list \<Rightarrow> (string \<times> json) list" where
  "set_member k x [] = [(k, x)]"
| "set_member k x ((k', v) # fs) = (if k' = k then (k, x) # fs else (k', v) # set_member k x fs)"

fun js_set_index0 :: "json \<Rightarrow> json \<Rightarrow> error + json" where
  "js_set_index0 (JArr []) x = Inr (JArr [x])"
| "js_set_index0 (JArr (y # ys)) x = Inr (JArr (x # ys))"
| "js_set_index0 (JObj fs) x = Inr (JObj (set_member ''0'' x fs))"
| "js_set_index0 v x = Inl TypeError"

fun isArray :: "json \<Rightarrow> bool" where
  "isArray (JArr xs) = True"
| "isArray v = False"

subsection \<open>Strings\<close>

text \<open>\<^verbatim>\<open>String(n)\<close> for a non-negative integer, and for any integer.\<close>

fun show_nat :: "nat \<Rightarrow> string" where
  "show_nat n =
     (if n < 10 then [''0123456789'' ! n]
      else show_nat (n div 10) @ [''0123456789'' ! (n mod 10)])"

declare show_nat.simps [simp del]

definition show_int :: "int \<Rightarrow> string" where
  "show_int i = (if i < 0 then CHR ''-'' # show_nat (nat (- i)) else show_nat (nat i))"

text \<open>Text of the source that is not ASCII, as its UTF-8 bytes.\<close>

definition utf8 :: "nat list \<Rightarrow> string" where
  "utf8 bs = map char_of bs"

definition txt_empty_message :: string where
  "txt_empty_message = ''('' @ utf8 [0xE7, 0xA9, 0xBA, 0xE6, 0xB6, 0x88, 0xE6, 0x81, 0xAF] @ '')''"

definition txt_group :: string where
  "txt_group = utf8 [0xE7, 0xBE, 0xA4, 0xE7, 0xBB, 0x84] @ '' ''"

definition txt_character :: string where
  "txt_character = utf8 [0xE8, 0xA7, 0x92, 0xE8, 0x89, 0xB2] @ '' ''"

definition txt_new_chat :: string where
  "txt_new_chat = utf8 [0xE6, 0x96, 0xB0, 0xE8, 0x81, 0x8A, 0xE5, 0xA4, 0xA9]"

definition txt_current_chat :: string where
  "txt_current_chat = utf8 [0xE5, 0xBD, 0x93, 0xE5, 0x89, 0x8D, 0xE8, 0x81, 0x8A, 0xE5, 0xA4, 0xA9]"

definition txt_unknown_entity :: string where
  "txt_unknown_entity = utf8 [0xE6, 0x9C, 0xAA, 0xE7, 0x9F, 0xA5, 0xE5, 0xAE, 0x9E, 0xE4, 0xBD, 0x93]"

text \<open>
  \<^verbatim>\<open>s.substring(s.lastIndexOf('/') + 1)\<close>: what follows the last slash, the whole
  string when there is none.
\<close>

fun after_last_slash :: "string \<Rightarrow> string" where
  "after_last_slash [] = []"
| "after_last_slash (c # cs) =
     (if CHR ''/'' \<in> set cs then after_last_slash cs
      else if c = CHR ''/'' then cs else c # cs)"

text \<open>\<^verbatim>\<open>s.replace(p, '')\<close> for a string pattern: the first occurrence is removed.\<close>

fun remove_first :: "string \<Rightarrow> string \<Rightarrow> string" where
  "remove_first p [] = []"
| "remove_first p (c # cs) =
     (if take (length p) (c # cs) = p then drop (length p) (c # cs)
      else c # remove_first p cs)"

subsection \<open>The host application\<close>

text \<open>
  \<^verbatim>\<open>getContext()\<close>: the selected group (\<^verbatim>\<open>null\<close> is \<open>None\<close>), the index of the
  selected character in \<^verbatim>\<open>characters\<close> (\<^verbatim>\<open>undefined\<close> is \<open>None\<close>), the chat file,
  the messages of the open chat, its metadata and the name of the character.
\<close>

record chat_context =
  groupId :: "string option"
  characterId :: "nat option"
  chatId :: "string option"
  chat :: "json list option"
  chatMetadata :: "json option"
  name2 :: "string option"

record character =
  ch_name :: string
  ch_avatar :: string
  ch_chat :: "string option"
  ch_id :: "string option"

record chat_group =
  g_id :: string
  g_name :: string
  g_chat_metadata :: "json option"

text \<open>
  The answer to one \<^verbatim>\<open>fetch\<close> followed by \<^verbatim>\<open>response.json()\<close>: the promise is
  rejected (no network, or a body that is not JSON), the status is not ok, or a value
  arrives.
\<close>

datatype response = Rejected | Status nat | Body json

text \<open>
  What IndexedDB does with one request of the plugin: the transaction completes, the
  database cannot be opened (\<^verbatim>\<open>getDB\<close> throws before the \<^verbatim>\<open>try\<close> of the caller), or
  the transaction fails (inside the \<^verbatim>\<open>try\<close> of the caller).
\<close>

datatype idb = Completes | OpenFails | TransactionFails

record settings =
  maxTotalBackups :: int
  backupDebounceDelay :: "int option"
  debug :: bool

subsection \<open>The object store\<close>

text \<open>
  A record of the object store \<^verbatim>\<open>backups_v2\<close>. Its key path is
  \<^verbatim>\<open>['chatKey', 'timestamp']\<close>; the store is the list of its records in the order of
  their keys, which is the order in which \<^verbatim>\<open>getAllKeys\<close> and the index
  \<^verbatim>\<open>chatKey\<close> return them.
\<close>

record backup =
  timestamp :: int
  chatKey :: string
  entityName :: string
  chatName :: string
  entityId :: "string option"
  isGroup :: bool
  lastMessageId :: int
  lastMessagePreview :: string
  rawChatData :: json
  groupMetadata :: "json option"

type_synonym bkey = "string \<times> int"

definition key_of :: "backup \<Rightarrow> bkey" where
  "key_of b = (chatKey b, timestamp b)"

text \<open>\<^verbatim>\<open>store.put(backup)\<close> and \<^verbatim>\<open>store.delete([chatKey, timestamp])\<close>.\<close>

definition idb_put :: "backup \<Rightarrow> backup list \<Rightarrow> backup list" where
  "idb_put b st = insort_key key_of b (filter (\<lambda>x. key_of x \<noteq> key_of b) st)"

definition idb_delete :: "bkey \<Rightarrow> backup list \<Rightarrow> backup list" where
  "idb_delete k st = filter (\<lambda>x. key_of x \<noteq> k) st"

definition saveBackupToDB :: "idb \<Rightarrow> backup \<Rightarrow> backup list \<Rightarrow> unit outcome \<times> backup list" where
  "saveBackupToDB f b st =
     (case f of
        Completes \<Rightarrow> (Returned (), idb_put b st)
      | OpenFails \<Rightarrow> (Threw StorageError, st)
      | TransactionFails \<Rightarrow> (Threw StorageError, st))"

definition getBackupFromDB :: "idb \<Rightarrow> string \<Rightarrow> int \<Rightarrow> backup list \<Rightarrow> backup option outcome" where
  "getBackupFromDB f ck ts st =
     (case f of
        Completes \<Rightarrow> Returned (find (\<lambda>x. key_of x = (ck, ts)) st)
      | OpenFails \<Rightarrow> Threw StorageError
      | TransactionFails \<Rightarrow> Returned None)"

definition getBackupsForChat :: "idb \<Rightarrow> string \<Rightarrow> backup list \<Rightarrow> backup list outcome" where
  "getBackupsForChat f ck st =
     (case f of
        Completes \<Rightarrow> Returned (filter (\<lambda>x. chatKey x = ck) st)
      | OpenFails \<Rightarrow> Threw StorageError
      | TransactionFails \<Rightarrow> Returned [])"

definition getAllBackupKeys :: "idb \<Rightarrow> backup list \<Rightarrow> bkey list outcome" where
  "getAllBackupKeys f st =
     (case f of
        Completes \<Rightarrow> Returned (map key_of st)
      | OpenFails \<Rightarrow> Threw StorageError
      | TransactionFails \<Rightarrow> Returned [])"

definition deleteBackup :: "idb \<Rightarrow> string \<Rightarrow> int \<Rightarrow> backup list \<Rightarrow> unit outcome \<times> backup list" where
  "deleteBackup f ck ts st =
     (case f of
        Completes \<Rightarrow> (Returned (), idb_delete (ck, ts) st)
      | OpenFails \<Rightarrow> (Threw StorageError, st)
      | TransactionFails \<Rightarrow> (Threw StorageError, st))"

subsection \<open>The state of the plugin and its environment\<close>

datatype toast = ToastError | ToastSuccess | ToastInfo

text \<open>What the plugin asks of the host, of IndexedDB and of the user interface.\<close>

datatype event =
    GetContext
  | Fetch string
  | IdbGetAll string
  | IdbGetAllKeys
  | IdbPut bkey
  | IdbDelete bkey
  | Toastr toast
  | UpdateBackupsList
  | CallGenericPopup
  | SaveChatConditional
  | SelectGroupChats "string option" "json option"
  | SelectCharacterById nat
  | PostGroupImport "string option" string
  | PostChatSave string "json list"
  | OpenCharacterChat string
  | ClosePopup

record timer =
  t_id :: nat
  t_scheduledChatKey :: string
  t_delay :: int

record state =
  isBackupInProgress :: bool
  backupTimeout :: "nat option"
  timers :: "timer list"
  nextTimer :: nat
  store :: "backup list"
  calls :: "event list"

definition emit :: "event list \<Rightarrow> state \<Rightarrow> state" where
  "emit es s = s\<lparr>calls := calls s @ es\<rparr>"

text \<open>
  The environment of one backup cycle: the clock, the host's context and tables, the
  settings of the plugin in \<^verbatim>\<open>extension_settings\<close> (the name of the plugin is not
  declared in the file, so the lookup is a field here), the answer to the one
  \<^verbatim>\<open>fetch\<close> of the cycle, and the fate of each IndexedDB request of the cycle.
\<close>

record world =
  now :: int
  getContext :: chat_context
  characters :: "character list"
  groups :: "chat_group list option"
  extension_settings :: "settings option"
  fetched :: response
  idbGetBackupsForChat :: idb
  idbDeleteExisting :: idb
  idbSave :: idb
  idbGetAllKeys :: idb
  idbDeleteOldest :: "bkey \<Rightarrow> idb"

subsection \<open>Which chat is open\<close>

text \<open>\<^verbatim>\<open>`${x}`\<close> for a value that may be \<^verbatim>\<open>undefined\<close>.\<close>

definition template :: "string option \<Rightarrow> string" where
  "template x = (case x of Some v \<Rightarrow> v | None \<Rightarrow> ''undefined'')"

definition getCurrentChatKey :: "world \<Rightarrow> string option" where
  "getCurrentChatKey w =
     (let context = getContext w in
      if truthy_str (groupId context)
      then Some (''group_'' @ template (groupId context) @ ''_'' @ template (chatId context))
      else (case characterId context of
              Some n \<Rightarrow>
                (if truthy_str (chatId context)
                 then Some (''char_'' @ show_nat n @ ''_'' @ template (chatId context))
                 else None)
            | None \<Rightarrow> None))"

record chat_info =
  ci_entityName :: string
  ci_chatName :: string
  ci_entityId :: "string option"
  ci_isGroup :: bool

definition find_group :: "world \<Rightarrow> string option \<Rightarrow> chat_group option" where
  "find_group w gid =
     (case groups w of
        None \<Rightarrow> None
      | Some gs \<Rightarrow> find (\<lambda>g. Some (g_id g) = gid) gs)"

definition character_at :: "world \<Rightarrow> nat \<Rightarrow> character option" where
  "character_at w n = (if n < length (characters w) then Some (characters w ! n) else None)"

definition getCurrentChatInfo :: "world \<Rightarrow> chat_info" where
  "getCurrentChatInfo w =
     (let context = getContext w in
      if truthy_str (groupId context) then
        \<lparr>ci_entityName =
           (case find_group w (groupId context) of
              Some g \<Rightarrow> g_name g
            | None \<Rightarrow> txt_group @ template (groupId context)),
         ci_chatName = str_or (chatId context) txt_new_chat,
         ci_entityId = groupId context,
         ci_isGroup = True\<rparr>
      else (case characterId context of
              Some n \<Rightarrow>
                \<lparr>ci_entityName = str_or (name2 context) (txt_character @ show_nat n),
                 ci_chatName =
                   (case character_at w n of
                      Some ch \<Rightarrow>
                        (if truthy_str (chatId context)
                         then remove_first ''.jsonl''
                                (after_last_slash (str_or (ch_chat ch) (template (chatId context))))
                         else str_or (chatId context) txt_new_chat)
                    | None \<Rightarrow> str_or (chatId context) txt_new_chat),
                 ci_entityId = Some (show_nat n),
                 ci_isGroup = False\<rparr>
            | None \<Rightarrow>
                \<lparr>ci_entityName = txt_unknown_entity,
                 ci_chatName = txt_current_chat,
                 ci_entityId = None,
                 ci_isGroup = False\<rparr>))"

subsection \<open>Building the snapshot\<close>

definition then_do :: "error + 'a \<Rightarrow> ('a \<Rightarrow> error + 'b) \<Rightarrow> error + 'b" where
  "then_do r f = (case r of Inl e \<Rightarrow> Inl e | Inr x \<Rightarrow> f x)"

text \<open>\<^verbatim>\<open>lastMessage?.mes?.substring(0, 100) || '...'\<close>; a \<^verbatim>\<open>mes\<close> that is neither
  a string nor absent has no \<^verbatim>\<open>substring\<close>, and the call throws.\<close>

definition previewOf :: "json \<Rightarrow> error + string" where
  "previewOf lastMessage =
     (case (case lastMessage of JObj fs \<Rightarrow> map_of fs ''mes'' | _ \<Rightarrow> None) of
        None \<Rightarrow> Inr txt_empty_message
      | Some JNull \<Rightarrow> Inr txt_empty_message
      | Some (JStr t) \<Rightarrow> Inr (if take 100 t \<noteq> [] then take 100 t else txt_empty_message)
      | Some _ \<Rightarrow> Inl TypeError)"

text \<open>
  The test of line 425,
  \<^verbatim>\<open>!Array.isArray(rawChatData) || rawChatData.length === 0 || !rawChatData[0].chat_metadata\<close>,
  evaluated from left to right.
\<close>

definition malformed :: "json \<Rightarrow> error + bool" where
  "malformed raw =
     (if \<not> isArray raw then Inr True
      else if js_length raw = Inr (Some (JNum 0)) then Inr True
      else then_do (js_index0 raw) (\<lambda>first.
           then_do (js_field_opt ''chat_metadata'' first) (\<lambda>m.
           Inr (\<not> truthy_opt m))))"

text \<open>
  Lines 424 to 434: the check of what \<^verbatim>\<open>/api/chats/get\<close> returned and the fallback to
  \<^verbatim>\<open>context.chatMetadata\<close>.
\<close>

definition validateRawChatData :: "chat_context \<Rightarrow> json \<Rightarrow> error + json" where
  "validateRawChatData context raw =
     then_do (malformed raw) (\<lambda>bad.
       if \<not> bad then Inr raw
       else
         (let fallbackMetadata = or_empty_object (chatMetadata context) in
          then_do (js_length raw) (\<lambda>len.
            if len = Some (JNum 0) then Inr (JArr [fallbackMetadata])
            else
              then_do (js_index0 raw) (\<lambda>first.
              then_do (js_field_opt ''chat_metadata'' first) (\<lambda>m.
                js_set_index0 raw
                  (case first of
                     Some x \<Rightarrow> (if truthy_opt m then x else fallbackMetadata)
                   | None \<Rightarrow> fallbackMetadata))))))"

text \<open>
  Step 1 of the cycle (lines 377 to 440): the raw chat and, for a group, its metadata,
  with the requests made. The pair is \<^verbatim>\<open>rawChatData\<close> and \<^verbatim>\<open>groupMetadata\<close> of
  the snapshot.
\<close>

definition fetchRawChatData :: "world \<Rightarrow> chat_info \<Rightarrow> (error + json \<times> json option) \<times> event list" where
  "fetchRawChatData w info =
     (let context = getContext w in
      if ci_isGroup info then
        ((case fetched w of
            Rejected \<Rightarrow> Inl FetchRejected
          | Status n \<Rightarrow> Inl (HttpError n)
          | Body messages \<Rightarrow>
              Inr (messages,
                   Some (or_empty_object
                     (case find_group w (ci_entityId info) of
                        Some g \<Rightarrow> g_chat_metadata g
                      | None \<Rightarrow> None)))),
         [Fetch ''/api/chats/group/get''])
      else
        (case (case characterId context of Some n \<Rightarrow> character_at w n | None \<Rightarrow> None) of
           None \<Rightarrow> (Inl CharacterInfoMissing, [])
         | Some ch \<Rightarrow>
             ((case fetched w of
                 Rejected \<Rightarrow> Inl FetchRejected
               | Status n \<Rightarrow> Inl (HttpError n)
               | Body raw \<Rightarrow>
                   then_do (validateRawChatData context raw) (\<lambda>checked.
                     if truthy checked then Inr (checked, None) else Inl NoChatData)),
              [Fetch ''/api/chats/get''])))"

subsection \<open>The backup cycle\<close>

text \<open>
  \<^verbatim>\<open>Promise.all(keysToDelete.map(key => deleteBackup(key[0], key[1])))\<close>: every
  deletion is requested; the promise is rejected when one of them fails.
\<close>

fun deleteAll :: "(bkey \<Rightarrow> idb) \<Rightarrow> bkey list \<Rightarrow> state \<Rightarrow> unit outcome \<times> state" where
  "deleteAll f [] s = (Returned (), s)"
| "deleteAll f (k # ks) s =
     (case deleteBackup (f k) (fst k) (snd k) (store s) of
        (r, st) \<Rightarrow>
          (case deleteAll f ks (emit [IdbDelete k] (s\<lparr>store := st\<rparr>)) of
             (rs, s') \<Rightarrow> ((case r of Threw e \<Rightarrow> Threw e | Returned u \<Rightarrow> rs), s')))"

text \<open>Step 6 (lines 489 to 502): the total number of snapshots is cut to the maximum.\<close>

definition cleanupOldBackups :: "settings \<Rightarrow> world \<Rightarrow> state \<Rightarrow> unit outcome \<times> state" where
  "cleanupOldBackups settings w s =
     (let s1 = emit [IdbGetAllKeys] s in
      case getAllBackupKeys (idbGetAllKeys w) (store s1) of
        Threw e \<Rightarrow> (Threw e, s1)
      | Returned allBackupKeys \<Rightarrow>
          if int (length allBackupKeys) > maxTotalBackups settings then
            (let sortedKeys = sort_key snd allBackupKeys;
                 numToDelete = int (length allBackupKeys) - maxTotalBackups settings;
                 keysToDelete = take (nat numToDelete) sortedKeys
             in deleteAll (idbDeleteOldest w) keysToDelete s1)
          else (Returned (), s1))"

text \<open>Step 5 and what follows it (lines 483 to 507).\<close>

definition saveAndCleanup :: "settings \<Rightarrow> world \<Rightarrow> backup \<Rightarrow> state \<Rightarrow> bool outcome \<times> state" where
  "saveAndCleanup settings w b s =
     (let s1 = emit [IdbPut (key_of b)] s in
      case saveBackupToDB (idbSave w) b (store s1) of
        (Threw e, st) \<Rightarrow> (Threw e, s1\<lparr>store := st\<rparr>)
      | (Returned u, st) \<Rightarrow>
          (case cleanupOldBackups settings w (s1\<lparr>store := st\<rparr>) of
             (Threw e, s2) \<Rightarrow> (Threw e, s2)
           | (Returned u', s2) \<Rightarrow> (Returned True, s2)))"

text \<open>Steps 3 and 4 (lines 460 to 481): the snapshot against those stored for its chat.\<close>

definition storeBackup :: "settings \<Rightarrow> world \<Rightarrow> backup \<Rightarrow> state \<Rightarrow> bool outcome \<times> state" where
  "storeBackup settings w b s =
     (let s1 = emit [IdbGetAll (chatKey b)] s in
      case getBackupsForChat (idbGetBackupsForChat w) (chatKey b) (store s1) of
        Threw e \<Rightarrow> (Threw e, s1)
      | Returned existingBackups \<Rightarrow>
          (case find (\<lambda>x. lastMessageId x = lastMessageId b) existingBackups of
             None \<Rightarrow> saveAndCleanup settings w b s1
           | Some existing \<Rightarrow>
               if timestamp b > timestamp existing then
                 (let s2 = emit [IdbDelete (chatKey b, timestamp existing)] s1 in
                  case deleteBackup (idbDeleteExisting w) (chatKey b) (timestamp existing) (store s2) of
                    (Threw e, st) \<Rightarrow> (Threw e, s2\<lparr>store := st\<rparr>)
                  | (Returned u, st) \<Rightarrow> saveAndCleanup settings w b (s2\<lparr>store := st\<rparr>))
               else (Returned False, s1)))"

text \<open>Step 2 (lines 444 to 456): the snapshot object.\<close>

definition buildBackup :: "world \<Rightarrow> string \<Rightarrow> chat_info \<Rightarrow> int \<Rightarrow> string \<Rightarrow> json \<times> json option \<Rightarrow> backup" where
  "buildBackup w ck info lastMsgIndex preview raw =
     \<lparr>timestamp = now w,
      chatKey = ck,
      entityName = ci_entityName info,
      chatName = ci_chatName info,
      entityId = ci_entityId info,
      isGroup = ci_isGroup info,
      lastMessageId = lastMsgIndex,
      lastMessagePreview = preview,
      rawChatData = fst raw,
      groupMetadata = snd raw\<rparr>"

definition executeBackupLogic_Core :: "settings \<Rightarrow> world \<Rightarrow> state \<Rightarrow> bool outcome \<times> state" where
  "executeBackupLogic_Core settings w s =
     (let s1 = emit [GetContext] s in
      case getCurrentChatKey w of
        None \<Rightarrow> (Returned False, s1)
      | Some ck \<Rightarrow>
          (let info = getCurrentChatInfo w;
               context = getContext w;
               s2 = emit [GetContext, GetContext] s1
           in case chat context of
                None \<Rightarrow> (Returned False, s2)
              | Some [] \<Rightarrow> (Returned False, s2)
              | Some (m # ms) \<Rightarrow>
                  (let lastMsgIndex = int (length (m # ms)) - 1;
                       lastMessage = last (m # ms)
                   in case previewOf lastMessage of
                        Inl e \<Rightarrow> (Threw e, s2)
                      | Inr preview \<Rightarrow>
                          (case fetchRawChatData w info of
                             (Inl e, es) \<Rightarrow> (Threw e, emit es s2)
                           | (Inr raw, es) \<Rightarrow>
                               storeBackup settings w
                                 (buildBackup w ck info lastMsgIndex preview raw)
                                 (emit es s2)))))"

subsection \<open>The coordinator\<close>

text \<open>\<^verbatim>\<open>updateBackupsList\<close> reads the store and rewrites the list of the popup.\<close>

definition updateBackupsList :: "state \<Rightarrow> state" where
  "updateBackupsList s = emit [UpdateBackupsList] s"

text \<open>
  \<^verbatim>\<open>performBackupConditional\<close> returns \<^verbatim>\<open>undefined\<close> (\<open>None\<close>) when a cycle
  is running and a boolean otherwise. Its \<^verbatim>\<open>try\<close> block is \<open>tryBackup\<close>, its
  \<^verbatim>\<open>finally\<close> block is \<open>releaseLock\<close>.
\<close>

definition tryBackup :: "settings \<Rightarrow> world \<Rightarrow> state \<Rightarrow> bool \<times> state" where
  "tryBackup currentSettings w s =
     (case executeBackupLogic_Core currentSettings w s of
        (Returned success, s') \<Rightarrow> (success, if success then updateBackupsList s' else s')
      | (Threw e, s') \<Rightarrow> (False, emit [Toastr ToastError] s'))"

definition releaseLock :: "state \<Rightarrow> state" where
  "releaseLock s = s\<lparr>isBackupInProgress := False\<rparr>"

definition chatIsEmpty :: "chat_context \<Rightarrow> bool" where
  "chatIsEmpty context = (case chat context of None \<Rightarrow> True | Some ms \<Rightarrow> ms = [])"

definition performBackupConditional :: "world \<Rightarrow> state \<Rightarrow> bool option \<times> state" where
  "performBackupConditional w s =
     (if isBackupInProgress s then (None, s)
      else
        (let s1 = emit [GetContext, GetContext] s in
         if getCurrentChatKey w = None \<or> chatIsEmpty (getContext w) then (Some False, s1)
         else
           (case extension_settings w of
              None \<Rightarrow> (Some False, s1)
            | Some currentSettings \<Rightarrow>
                (case tryBackup currentSettings w (s1\<lparr>isBackupInProgress := True\<rparr>) of
                   (success, s2) \<Rightarrow> (Some success, releaseLock s2)))))"

subsection \<open>The debounce timer\<close>

definition clearTimeout :: "nat option \<Rightarrow> state \<Rightarrow> state" where
  "clearTimeout h s =
     (case h of
        None \<Rightarrow> s
      | Some i \<Rightarrow> s\<lparr>timers := filter (\<lambda>t. t_id t \<noteq> i) (timers s)\<rparr>)"

text \<open>
  \<^verbatim>\<open>setTimeout(callback, delay)\<close>: the callback of the plugin is determined by the
  chat key it captured, so a pending timer is that key and the delay.
\<close>

definition setTimeout :: "string \<Rightarrow> int \<Rightarrow> state \<Rightarrow> nat \<times> state" where
  "setTimeout scheduledChatKey delay s =
     (nextTimer s,
      s\<lparr>timers := timers s @ [\<lparr>t_id = nextTimer s, t_scheduledChatKey = scheduledChatKey, t_delay = delay\<rparr>],
        nextTimer := Suc (nextTimer s)\<rparr>)"

definition performBackupDebounced :: "world \<Rightarrow> state \<Rightarrow> state" where
  "performBackupDebounced w s =
     (let s1 = emit [GetContext] s in
      case getCurrentChatKey w of
        None \<Rightarrow> (clearTimeout (backupTimeout s1) s1)\<lparr>backupTimeout := None\<rparr>
      | Some scheduledChatKey \<Rightarrow>
          (case (case extension_settings w of
                   None \<Rightarrow> None
                 | Some currentSettings \<Rightarrow> backupDebounceDelay currentSettings) of
             None \<Rightarrow> (clearTimeout (backupTimeout s1) s1)\<lparr>backupTimeout := None\<rparr>
           | Some delay \<Rightarrow>
               (case setTimeout scheduledChatKey delay (clearTimeout (backupTimeout s1) s1) of
                  (h, s2) \<Rightarrow> s2\<lparr>backupTimeout := Some h\<rparr>)))"

text \<open>The callback given to \<^verbatim>\<open>setTimeout\<close> (lines 586 to 600).\<close>

definition debouncedCallback :: "string \<Rightarrow> world \<Rightarrow> state \<Rightarrow> state" where
  "debouncedCallback scheduledChatKey w s =
     (let s1 = emit [GetContext] s in
      if getCurrentChatKey w \<noteq> Some scheduledChatKey then s1\<lparr>backupTimeout := None\<rparr>
      else (snd (performBackupConditional w s1))\<lparr>backupTimeout := None\<rparr>)"

text \<open>The runtime fires timer \<open>i\<close>: a timer that was cleared does nothing.\<close>

definition fireTimer :: "nat \<Rightarrow> world \<Rightarrow> state \<Rightarrow> state" where
  "fireTimer i w s =
     (case find (\<lambda>t. t_id t = i) (timers s) of
        None \<Rightarrow> s
      | Some t \<Rightarrow>
          debouncedCallback (t_scheduledChatKey t) w
            (s\<lparr>timers := filter (\<lambda>t. t_id t \<noteq> i) (timers s)\<rparr>))"

subsection \<open>\<^verbatim>\<open>JSON.stringify\<close>\<close>

definition escape_char :: "char \<Rightarrow> string" where
  "escape_char c =
     (if c = CHR 0x22 then [CHR 0x5C, CHR 0x22]
      else if c = CHR 0x5C then [CHR 0x5C, CHR 0x5C]
      else if c = CHR 0x08 then [CHR 0x5C, CHR ''b'']
      else if c = CHR 0x0C then [CHR 0x5C, CHR ''f'']
      else if c = CHR 0x0A then [CHR 0x5C, CHR ''n'']
      else if c = CHR 0x0D then [CHR 0x5C, CHR ''r'']
      else if c = CHR 0x09 then [CHR 0x5C, CHR ''t'']
      else if (of_char c :: nat) < 0x20
      then [CHR 0x5C, CHR ''u'', CHR ''0'', CHR ''0'',
            ''0123456789abcdef'' ! (of_char c div 16), ''0123456789abcdef'' ! (of_char c mod 16)]
      else [c])"

definition quote :: "string \<Rightarrow> string" where
  "quote t = [CHR 0x22] @ concat (map escape_char t) @ [CHR 0x22]"

fun join :: "string list \<Rightarrow> string" where
  "join [] = []"
| "join [x] = x"
| "join (x # y # ys) = x @ '','' @ join (y # ys)"

fun stringify :: "json \<Rightarrow> string"
  and stringify_elements :: "json list \<Rightarrow> string list"
  and stringify_members :: "(string \<times> json) list \<Rightarrow> string list" where
  "stringify JNull = ''null''"
| "stringify (JBool b) = (if b then ''true'' else ''false'')"
| "stringify (JNum n) = show_int n"
| "stringify (JStr t) = quote t"
| "stringify (JArr xs) = ''['' @ join (stringify_elements xs) @ '']''"
| "stringify (JObj fs) = ''{'' @ join (stringify_members fs) @ ''}''"
| "stringify_elements [] = []"
| "stringify_elements (x # xs) = stringify x # stringify_elements xs"
| "stringify_members [] = []"
| "stringify_members ((k, v) # fs) = (quote k @ '':'' @ stringify v) # stringify_members fs"

subsection \<open>Restoring a snapshot\<close>

text \<open>
  Step 2 of \<^verbatim>\<open>restoreBackup\<close> (lines 697 to 724): the lines of the chat file, the
  metadata and the messages. Each line ends with a line feed.
\<close>

definition jsonl :: "json \<Rightarrow> json list \<Rightarrow> string" where
  "jsonl first msgs = stringify first @ [CHR 0x0A] @ concat (map (\<lambda>msg. stringify msg @ [CHR 0x0A]) msgs)"

definition buildJsonl :: "backup \<Rightarrow> error + string \<times> json \<times> json list" where
  "buildJsonl backupData =
     (if isGroup backupData then
        (let metadataToImport = or_empty_object (groupMetadata backupData) in
         case (if truthy (rawChatData backupData) then rawChatData backupData else JArr []) of
           JArr messagesToImport \<Rightarrow>
             Inr (jsonl metadataToImport messagesToImport, metadataToImport, messagesToImport)
         | _ \<Rightarrow> Inl TypeError)
      else
        (case rawChatData backupData of
           JArr (first # messagesToImport) \<Rightarrow>
             (let metadataToImport =
                    or_empty_object (case first of JObj fs \<Rightarrow> map_of fs ''chat_metadata'' | _ \<Rightarrow> None)
              in Inr (jsonl (JObj [(''chat_metadata'', metadataToImport)]) messagesToImport,
                      metadataToImport, messagesToImport))
         | _ \<Rightarrow> Inl BadCharacterBackup))"

text \<open>The \<^verbatim>\<open>chat\<close> of the request to \<^verbatim>\<open>/api/chats/save\<close> (line 795).\<close>

definition chatToSave :: "json \<Rightarrow> json list \<Rightarrow> json list" where
  "chatToSave metadataToImport messagesToImport =
     JObj [(''chat_metadata'', metadataToImport)] # messagesToImport"

text \<open>\<^verbatim>\<open>replace(/\s+/g, '_')\<close> and \<^verbatim>\<open>replace(/[:.]/g, '-')\<close>.\<close>

definition is_space :: "char \<Rightarrow> bool" where
  "is_space c = (c \<in> set [CHR 0x20, CHR 0x09, CHR 0x0A, CHR 0x0B, CHR 0x0C, CHR 0x0D])"

fun underscore_run :: "bool \<Rightarrow> string \<Rightarrow> string" where
  "underscore_run in_run [] = []"
| "underscore_run in_run (c # cs) =
     (if is_space c then (if in_run then underscore_run True cs else CHR ''_'' # underscore_run True cs)
      else c # underscore_run False cs)"

definition underscore_spaces :: "string \<Rightarrow> string" where
  "underscore_spaces t = underscore_run False t"

definition dash_colons :: "string \<Rightarrow> string" where
  "dash_colons t = map (\<lambda>c. if c = CHR '':'' \<or> c = CHR ''.'' then CHR ''-'' else c) t"

datatype popup_result = PopupAffirmative | PopupCancelled | PopupCustom2 | PopupOther

text \<open>
  The environment of one restore: the context and the characters of the host, the answer
  of the user, whether each call to the host succeeds, the clock as an ISO string, the
  answer to the one request that submits the chat, and whether the popup is open.
\<close>

record restore_world =
  r_getContext :: chat_context
  r_characters :: "character list"
  r_popup :: popup_result
  r_saveChatConditional :: bool
  r_switch :: bool
  r_isoString :: string
  r_posted :: response
  r_load :: bool
  r_popupOpen :: bool

text \<open>
  \<^verbatim>\<open>characters.findIndex(char => String(char.id) === id || String(characters.indexOf(char)) === id)\<close>
\<close>

definition findCharacter :: "character list \<Rightarrow> string option \<Rightarrow> (nat \<times> character) option" where
  "findCharacter cs target =
     find (\<lambda>(i, ch). Some (template (ch_id ch)) = target \<or> Some (show_nat i) = target)
       (enumerate 0 cs)"

text \<open>
  Step 1 (lines 663 to 695): the host is switched to the entity of the snapshot when it
  is not the current one. The result is \<^verbatim>\<open>targetEntityId\<close>.
\<close>

definition switchToTarget :: "restore_world \<Rightarrow> backup \<Rightarrow> state \<Rightarrow> (error + string option) \<times> state" where
  "switchToTarget rw backupData s =
     (let initialContext = r_getContext rw;
          targetEntityId = entityId backupData;
          needsContextSwitch =
            (if isGroup backupData then groupId initialContext \<noteq> targetEntityId
             else Some (template (map_option show_nat (characterId initialContext))) \<noteq> targetEntityId)
      in if needsContextSwitch then
           (if isGroup backupData then
              ((if r_switch rw then Inr targetEntityId else Inl HostCallFailed),
               emit [SelectGroupChats targetEntityId None] s)
            else
              (case findCharacter (r_characters rw) targetEntityId of
                 None \<Rightarrow> (Inl TargetCharacterNotFound, s)
               | Some (charIndex, ch) \<Rightarrow>
                   ((if r_switch rw then Inr (Some (show_nat charIndex)) else Inl HostCallFailed),
                    emit [SelectCharacterById charIndex] s)))
         else
           (Inr (if isGroup backupData then targetEntityId
                 else (case characterId initialContext of
                         Some n \<Rightarrow> Some (show_nat n)
                       | None \<Rightarrow> targetEntityId)),
            s))"

text \<open>Step 5 (lines 815 to 835): the new chat is opened.\<close>

definition loadNewChat :: "restore_world \<Rightarrow> backup \<Rightarrow> string option \<Rightarrow> json \<Rightarrow> state \<Rightarrow> (error + unit) \<times> state" where
  "loadNewChat rw backupData targetEntityId newChatIdAfterImport s =
     (if truthy newChatIdAfterImport then
        ((if r_load rw then Inr () else Inl LoadFailed),
         emit [if isGroup backupData then SelectGroupChats targetEntityId (Some newChatIdAfterImport)
               else OpenCharacterChat (case newChatIdAfterImport of JStr i \<Rightarrow> i | _ \<Rightarrow> [])] s)
      else (Inl NoNewChatId, s))"

text \<open>Steps 2 to 5 (lines 697 to 835).\<close>

definition importAndLoad :: "restore_world \<Rightarrow> backup \<Rightarrow> string option \<Rightarrow> state \<Rightarrow> (error + unit) \<times> state" where
  "importAndLoad rw backupData targetEntityId s =
     (case buildJsonl backupData of
        Inl e \<Rightarrow> (Inl e, s)
      | Inr (jsonlString, metadataToImport, messagesToImport) \<Rightarrow>
          (let restoredFilename =
                 underscore_spaces (entityName backupData) @ ''_restored_''
                   @ dash_colons (r_isoString rw) @ ''.jsonl''
           in if isGroup backupData then
                (let s1 = emit [PostGroupImport targetEntityId jsonlString] s in
                 case r_posted rw of
                   Rejected \<Rightarrow> (Inl GroupImportFailed, s1)
                 | Status n \<Rightarrow> (Inl GroupImportFailed, s1)
                 | Body importResult \<Rightarrow>
                     (case js_field ''res'' importResult of
                        Inl e \<Rightarrow> (Inl GroupImportFailed, s1)
                      | Inr None \<Rightarrow> (Inl GroupImportFailed, s1)
                      | Inr (Some res) \<Rightarrow>
                          if truthy res then loadNewChat rw backupData targetEntityId res s1
                          else (Inl GroupImportFailed, s1)))
              else
                (case findCharacter (r_characters rw) targetEntityId of
                   None \<Rightarrow> (Inl TargetCharacterNotFound, s)
                 | Some (i, ch) \<Rightarrow>
                     (let newChatIdForRole = remove_first ''.jsonl'' restoredFilename;
                          s1 = emit [PostChatSave newChatIdForRole
                                       (chatToSave metadataToImport messagesToImport)] s
                      in case r_posted rw of
                           Rejected \<Rightarrow> (Inl CharacterSaveFailed, s1)
                         | Status n \<Rightarrow> (Inl CharacterSaveFailed, s1)
                         | Body saved \<Rightarrow>
                             loadNewChat rw backupData targetEntityId (JStr newChatIdForRole) s1))))"

text \<open>The \<^verbatim>\<open>try\<close> block of \<^verbatim>\<open>restoreBackup\<close> with its two \<^verbatim>\<open>catch\<close> blocks.\<close>

definition restoreSteps :: "restore_world \<Rightarrow> backup \<Rightarrow> state \<Rightarrow> bool outcome \<times> state" where
  "restoreSteps rw backupData s =
     (case switchToTarget rw backupData (emit [GetContext] s) of
        (Inl e, s1) \<Rightarrow> (Returned False, emit [Toastr ToastError] s1)
      | (Inr targetEntityId, s1) \<Rightarrow>
          (case importAndLoad rw backupData targetEntityId s1 of
             (Inl e, s2) \<Rightarrow> (Returned False, emit [Toastr ToastError] s2)
           | (Inr u, s2) \<Rightarrow>
               (Returned True,
                emit (if r_popupOpen rw then [ClosePopup] else [])
                  (updateBackupsList (emit [Toastr ToastSuccess] s2)))))"

definition restoreBackup :: "restore_world \<Rightarrow> backup \<Rightarrow> state \<Rightarrow> bool outcome \<times> state" where
  "restoreBackup rw backupData s =
     (if \<not> truthy (rawChatData backupData) \<and> \<not> truthy_opt (groupMetadata backupData)
      then (Returned False, emit [Toastr ToastError] s)
      else
        (let s1 = emit [CallGenericPopup] s in
         case r_popup rw of
           PopupCancelled \<Rightarrow> (Returned False, s1)
         | PopupAffirmative \<Rightarrow>
             (if r_saveChatConditional rw
              then restoreSteps rw backupData (emit [SaveChatConditional] s1)
              else (Threw HostCallFailed, emit [SaveChatConditional] s1))
         | PopupCustom2 \<Rightarrow> restoreSteps rw backupData s1
         | PopupOther \<Rightarrow> (Returned False, s1)))"

subsection \<open>Events that change the object store, reach the host, or alarm the user\<close>

fun is_store_write :: "event \<Rightarrow> bool" where
  "is_store_write (IdbPut k) = True"
| "is_store_write (IdbDelete k) = True"
| "is_store_write e = False"

fun is_error_toast :: "event \<Rightarrow> bool" where
  "is_error_toast (Toastr ToastError) = True"
| "is_error_toast e = False"

subsection \<open>Notions used in the statements\<close>

text \<open>
  The oldest keys of a store beyond a maximum \<open>N\<close>: all keys, sorted by their
  timestamps in ascending order, the first \<open>count - N\<close> of them.
\<close>

definition oldestKeys :: "int \<Rightarrow> backup list \<Rightarrow> bkey list" where
  "oldestKeys N st = take (nat (int (length st) - N)) (sort_key snd (map key_of st))"

text \<open>Two states agree on the lock and on the timer.\<close>

definition same_control :: "state \<Rightarrow> state \<Rightarrow> bool" where
  "same_control s s' =
     (isBackupInProgress s' = isBackupInProgress s \<and> backupTimeout s' = backupTimeout s
      \<and> timers s' = timers s \<and> nextTimer s' = nextTimer s)"

text \<open>Every IndexedDB request of a cycle in this world completes.\<close>

definition idb_completes :: "world \<Rightarrow> bool" where
  "idb_completes w =
     (idbGetBackupsForChat w = Completes \<and> idbDeleteExisting w = Completes \<and> idbSave w = Completes
      \<and> idbGetAllKeys w = Completes \<and> (\<forall>k. idbDeleteOldest w k = Completes))"

text \<open>The stored snapshots of one chat whose last message has a given index.\<close>

definition sameIndex :: "string \<Rightarrow> int \<Rightarrow> backup list \<Rightarrow> backup list" where
  "sameIndex ck i st = filter (\<lambda>x. chatKey x = ck \<and> lastMessageId x = i) st"

text \<open>
  The only timer that can be pending is the one whose handle is in \<^verbatim>\<open>backupTimeout\<close>;
  the delay that \<^verbatim>\<open>performBackupDebounced\<close> reads from the settings.
\<close>

definition timer_tracked :: "state \<Rightarrow> bool" where
  "timer_tracked s = (t_id ` set (timers s) \<subseteq> set_option (backupTimeout s))"

definition delayOf :: "world \<Rightarrow> int option" where
  "delayOf w =
     (case extension_settings w of
        None \<Rightarrow> None
      | Some currentSettings \<Rightarrow> backupDebounceDelay currentSettings)"

text \<open>
  From one state to another only calls were recorded, none of them a request that writes
  to the object store.
\<close>

definition only_calls :: "state \<Rightarrow> state \<Rightarrow> bool" where
  "only_calls s s' = (\<exists>es. s' = emit es s \<and> filter is_store_write es = [])"

subsection \<open>A concrete run\<close>

text \<open>
  One character chat with one message, a store that holds one snapshot of another chat,
  and a maximum of one snapshot.
\<close>

definition ex_settings :: settings where
  "ex_settings = \<lparr>maxTotalBackups = 1, backupDebounceDelay = Some 1000, debug = False\<rparr>"

definition ex_context :: chat_context where
  "ex_context = \<lparr>groupId = None, characterId = Some 0, chatId = Some ''chat1'',
     chat = Some [JObj [(''mes'', JStr ''hi'')]],
     chatMetadata = Some (JObj [(''x'', JNum 1)]), name2 = Some ''Ann''\<rparr>"

definition ex_character :: character where
  "ex_character = \<lparr>ch_name = ''Ann'', ch_avatar = ''ann.png'', ch_chat = Some ''chat1'', ch_id = None\<rparr>"

definition ex_world :: world where
  "ex_world = \<lparr>now = 200, getContext = ex_context, characters = [ex_character], groups = None,
     extension_settings = Some ex_settings,
     fetched = Body (JArr [JObj [(''chat_metadata'', JObj [(''x'', JNum 1)])], JObj [(''mes'', JStr ''hi'')]]),
     idbGetBackupsForChat = Completes, idbDeleteExisting = Completes, idbSave = Completes,
     idbGetAllKeys = Completes, idbDeleteOldest = (\<lambda>k. Completes)\<rparr>"

definition ex_old :: backup where
  "ex_old = \<lparr>timestamp = 100, chatKey = ''char_1_other'', entityName = ''Bob'', chatName = ''other'',
     entityId = Some ''1'', isGroup = False, lastMessageId = 0, lastMessagePreview = ''yo'',
     rawChatData = JArr [JObj [(''chat_metadata'', JObj [])], JObj [(''mes'', JStr ''yo'')]],
     groupMetadata = None\<rparr>"

definition ex_new :: backup where
  "ex_new = \<lparr>timestamp = 200, chatKey = ''char_0_chat1'', entityName = ''Ann'', chatName = ''chat1'',
     entityId = Some ''0'', isGroup = False, lastMessageId = 0, lastMessagePreview = ''hi'',
     rawChatData = JArr [JObj [(''chat_metadata'', JObj [(''x'', JNum 1)])], JObj [(''mes'', JStr ''hi'')]],
     groupMetadata = None\<rparr>"

definition ex_state :: state where
  "ex_state = \<lparr>isBackupInProgress = False, backupTimeout = None, timers = [], nextTimer = 0,
     store = [ex_old], calls = []\<rparr>"

text \<open>The same world, except that listing the keys of the store fails.\<close>

definition ex_world_keys_fail :: world where
  "ex_world_keys_fail = ex_world\<lparr>idbGetAllKeys := TransactionFails\<rparr>"

text \<open>
  A store that holds an older snapshot of the example chat at the same message index, a
  maximum of two snapshots, and a world in which reading the snapshots of a chat fails.
\<close>

definition ex_stale :: backup where
  "ex_stale = \<lparr>timestamp = 100, chatKey = ''char_0_chat1'', entityName = ''Ann'', chatName = ''chat1'',
     entityId = Some ''0'', isGroup = False, lastMessageId = 0, lastMessagePreview = ''ho'',
     rawChatData = JArr [JObj [(''chat_metadata'', JObj [(''x'', JNum 1)])], JObj [(''mes'', JStr ''ho'')]],
     groupMetadata = None\<rparr>"

definition ex_state_stale :: state where
  "ex_state_stale = ex_state\<lparr>store := [ex_stale]\<rparr>"

definition ex_settings_two :: settings where
  "ex_settings_two = \<lparr>maxTotalBackups = 2, backupDebounceDelay = Some 1000, debug = False\<rparr>"

definition ex_world_read_fails :: world where
  "ex_world_read_fails = ex_world\<lparr>idbGetBackupsForChat := TransactionFails\<rparr>"

text \<open>
  The same world one hundred milliseconds later, and the snapshot that a cycle builds
  there.
\<close>

definition ex_world_later :: world where
  "ex_world_later = ex_world\<lparr>now := 300\<rparr>"

definition ex_newer :: backup where
  "ex_newer = ex_new\<lparr>timestamp := 300\<rparr>"

text \<open>
  A cycle is running; no chat is open; the request for the chat is rejected; the chat file
  is missing, for which the host answers with an empty object.
\<close>

definition ex_state_running :: state where
  "ex_state_running = ex_state\<lparr>isBackupInProgress := True\<rparr>"

definition ex_context_idle :: chat_context where
  "ex_context_idle = \<lparr>groupId = None, characterId = None, chatId = None,
     chat = Some [], chatMetadata = None, name2 = None\<rparr>"

definition ex_world_idle :: world where
  "ex_world_idle = ex_world\<lparr>getContext := ex_context_idle\<rparr>"

definition ex_world_offline :: world where
  "ex_world_offline = ex_world\<lparr>fetched := Rejected\<rparr>"

definition ex_world_missing_file :: world where
  "ex_world_missing_file = ex_world\<lparr>fetched := Body (JObj [])\<rparr>"

text \<open>A debounce timer is pending; the user has switched to another chat.\<close>

definition ex_state_pending :: state where
  "ex_state_pending = ex_state\<lparr>backupTimeout := Some 0, nextTimer := 1,
     timers := [\<lparr>t_id = 0, t_scheduledChatKey = ''char_0_chat1'', t_delay = 1000\<rparr>]\<rparr>"

definition ex_context_other :: chat_context where
  "ex_context_other = \<lparr>groupId = None, characterId = Some 1, chatId = Some ''other'',
     chat = Some [JObj [(''mes'', JStr ''yo'')]], chatMetadata = None, name2 = Some ''Bob''\<rparr>"

definition ex_world_other :: world where
  "ex_world_other = ex_world\<lparr>getContext := ex_context_other\<rparr>"

text \<open>
  A restore of the stored snapshot \<open>ex_old\<close>, whose character is not among the
  characters of the host.
\<close>

definition ex_restore_world :: restore_world where
  "ex_restore_world = \<lparr>r_getContext = ex_context, r_characters = [ex_character],
     r_popup = PopupCustom2, r_saveChatConditional = True, r_switch = True,
     r_isoString = ''2026-01-01T00:00:00.000Z'', r_posted = Body JNull, r_load = True,
     r_popupOpen = False\<rparr>"

section \<open>Properties\<close>

subsection \<open>Numerals as strings\<close>

lemma show_nat_digit [simp]: "n < 10 \<Longrightarrow> show_nat n = [''0123456789'' ! n]"
  by (subst show_nat.simps) simp

lemma show_nat_more: "10 \<le> n \<Longrightarrow> show_nat n = show_nat (n div 10) @ [''0123456789'' ! (n mod 10)]"
  by (subst show_nat.simps) simp

subsection \<open>The object store and the retention step\<close>

lemma deleteAll_Returned:
  "deleteAll f ks s = (Returned (), s') \<Longrightarrow> store s' = filter (\<lambda>x. key_of x \<notin> set ks) (store s)"
proof (induction ks arbitrary: s s')
  case Nil
  then show ?case by simp
next
  case (Cons k ks)
  obtain r st where d: "deleteBackup (f k) (fst k) (snd k) (store s) = (r, st)"
    by (cases "deleteBackup (f k) (fst k) (snd k) (store s)")
  obtain rs s2 where a: "deleteAll f ks (emit [IdbDelete k] (s\<lparr>store := st\<rparr>)) = (rs, s2)"
    by (cases "deleteAll f ks (emit [IdbDelete k] (s\<lparr>store := st\<rparr>))")
  from Cons.prems d a have r: "r = Returned ()" and rs: "rs = Returned ()" and s2: "s2 = s'"
    by (auto split: outcome.splits)
  from d r have st: "st = idb_delete k (store s)"
    by (auto simp: deleteBackup_def split: idb.splits)
  from Cons.IH[of "emit [IdbDelete k] (s\<lparr>store := st\<rparr>)" s'] a rs s2
  have "store s' = filter (\<lambda>x. key_of x \<notin> set ks) st"
    by (simp add: emit_def)
  with st show ?case
    by (auto simp: idb_delete_def intro: filter_cong)
qed

lemma deleteAll_store_subset:
  "set (store (snd (deleteAll f ks s))) \<subseteq> set (store s)"
proof (induction ks arbitrary: s)
  case Nil
  then show ?case by simp
next
  case (Cons k ks)
  show ?case
    using Cons.IH[of "emit [IdbDelete k] (s\<lparr>store := snd (deleteBackup (f k) (fst k) (snd k) (store s))\<rparr>)"]
    by (auto simp: emit_def deleteBackup_def idb_delete_def split: prod.splits idb.splits)
qed

lemma distinct_map_insort_key:
  "distinct (map f (insort_key f x xs)) \<longleftrightarrow> f x \<notin> f ` set xs \<and> distinct (map f xs)"
  by (induction xs) (auto simp: set_insort_key)

lemma distinct_idb_put:
  "distinct (map key_of st) \<Longrightarrow> distinct (map key_of (idb_put b st))"
  by (auto simp: idb_put_def distinct_map_insort_key distinct_map_filter)

lemma distinct_idb_delete:
  "distinct (map key_of st) \<Longrightarrow> distinct (map key_of (idb_delete k st))"
  by (auto simp: idb_delete_def distinct_map_filter)

lemma sorted_take_drop_le:
  assumes "sorted (map f xs)" "x \<in> set (take n xs)" "y \<in> set (drop n xs)"
  shows "f x \<le> f y"
proof -
  have "sorted (map f (take n xs) @ map f (drop n xs))"
    using assms(1) by (simp flip: map_append)
  then show ?thesis using assms(2,3) by (auto simp: sorted_append)
qed

lemma oldestKeys_subset: "set (oldestKeys N st) \<subseteq> key_of ` set st"
  unfolding oldestKeys_def using set_take_subset[of _ "sort_key snd (map key_of st)"] by auto

lemma distinct_oldestKeys: "distinct (map key_of st) \<Longrightarrow> distinct (oldestKeys N st)"
  by (simp add: oldestKeys_def)

lemma length_oldestKeys: "length (oldestKeys N st) = min (length st) (nat (int (length st) - N))"
  by (simp add: oldestKeys_def min.commute)

lemma retention_count:
  assumes d: "distinct (map key_of st)" and N: "0 \<le> N"
  shows "length (filter (\<lambda>x. key_of x \<notin> set (oldestKeys N st)) st) = min (length st) (nat N)"
proof -
  let ?D = "set (oldestKeys N st)"
  let ?ks = "map key_of st"
  have "length (filter (\<lambda>x. key_of x \<notin> ?D) st) = length (filter (\<lambda>k. k \<notin> ?D) ?ks)"
    by (simp add: filter_map comp_def)
  also have "\<dots> = card (set ?ks - ?D)"
  proof -
    have "distinct (filter (\<lambda>k. k \<notin> ?D) ?ks)" using d by simp
    then have "length (filter (\<lambda>k. k \<notin> ?D) ?ks) = card (set (filter (\<lambda>k. k \<notin> ?D) ?ks))"
      by (rule distinct_card[symmetric])
    also have "set (filter (\<lambda>k. k \<notin> ?D) ?ks) = set ?ks - ?D" by auto
    finally show ?thesis .
  qed
  also have "\<dots> = card (set ?ks) - card ?D"
    using oldestKeys_subset[of N st] by (intro card_Diff_subset) auto
  also have "card (set ?ks) = length st" using distinct_card[OF d] by simp
  also have "card ?D = length (oldestKeys N st)"
    using distinct_oldestKeys[OF d] by (rule distinct_card)
  finally show ?thesis using N by (simp add: length_oldestKeys)
qed

lemma retention_order:
  assumes "x \<in> set st" "key_of x \<in> set (oldestKeys N st)"
    and "y \<in> set st" "key_of y \<notin> set (oldestKeys N st)"
  shows "timestamp x \<le> timestamp y"
proof -
  let ?srt = "sort_key snd (map key_of st)"
  let ?n = "nat (int (length st) - N)"
  have "key_of y \<in> set ?srt" using assms(3) by simp
  then have "key_of y \<in> set (take ?n ?srt) \<union> set (drop ?n ?srt)"
    by (simp flip: set_append)
  with assms(4) have y: "key_of y \<in> set (drop ?n ?srt)" by (simp add: oldestKeys_def)
  have x: "key_of x \<in> set (take ?n ?srt)" using assms(2) by (simp add: oldestKeys_def)
  have "sorted (map snd ?srt)" by simp
  from sorted_take_drop_le[OF this x y] show ?thesis by (simp add: key_of_def)
qed

lemma cleanupOldBackups_Returned:
  assumes "cleanupOldBackups settings w s = (Returned (), s')" "idbGetAllKeys w = Completes"
  shows "store s' = filter (\<lambda>x. key_of x \<notin> set (oldestKeys (maxTotalBackups settings) (store s))) (store s)"
proof (cases "int (length (store s)) > maxTotalBackups settings")
  case True
  with assms have "deleteAll (idbDeleteOldest w) (oldestKeys (maxTotalBackups settings) (store s)) (emit [IdbGetAllKeys] s) = (Returned (), s')"
    by (simp add: cleanupOldBackups_def getAllBackupKeys_def oldestKeys_def emit_def Let_def)
  from deleteAll_Returned[OF this] show ?thesis by (simp add: emit_def)
next
  case False
  with assms have "s' = emit [IdbGetAllKeys] s"
    by (simp add: cleanupOldBackups_def getAllBackupKeys_def emit_def Let_def)
  moreover from False have "oldestKeys (maxTotalBackups settings) (store s) = []"
    by (simp add: oldestKeys_def)
  ultimately show ?thesis by (simp add: emit_def)
qed

lemma saveAndCleanup_True:
  assumes "saveAndCleanup settings w b s = (Returned True, s')" "idbGetAllKeys w = Completes"
  shows "store s' = filter (\<lambda>x. key_of x \<notin> set (oldestKeys (maxTotalBackups settings) (idb_put b (store s)))) (idb_put b (store s))"
proof -
  from assms(1) obtain s2 where
    c: "cleanupOldBackups settings w ((emit [IdbPut (key_of b)] s)\<lparr>store := idb_put b (store s)\<rparr>) = (Returned (), s')"
    by (auto simp: saveAndCleanup_def saveBackupToDB_def Let_def emit_def split: idb.splits prod.splits outcome.splits)
  from cleanupOldBackups_Returned[OF c assms(2)] show ?thesis by simp
qed

subsection \<open>What a cycle leaves untouched\<close>

lemma same_control_refl [simp]: "same_control s s"
  by (simp add: same_control_def)

lemma same_control_trans: "same_control s t \<Longrightarrow> same_control t u \<Longrightarrow> same_control s u"
  by (simp add: same_control_def)

lemma same_control_emit [simp]: "same_control s (emit es s)"
  by (simp add: same_control_def emit_def)

lemma same_control_store [simp]: "same_control s (s\<lparr>store := st\<rparr>)"
  by (simp add: same_control_def)

lemma same_control_emit_store [simp]: "same_control s (emit es (s\<lparr>store := st\<rparr>))" "same_control s ((emit es s)\<lparr>store := st\<rparr>)"
  by (simp_all add: same_control_def emit_def)

lemma deleteAll_control: "same_control s (snd (deleteAll f ks s))"
proof (induction ks arbitrary: s)
  case Nil
  then show ?case by simp
next
  case (Cons k ks)
  have "same_control (emit [IdbDelete k] (s\<lparr>store := snd (deleteBackup (f k) (fst k) (snd k) (store s))\<rparr>))
          (snd (deleteAll f ks (emit [IdbDelete k] (s\<lparr>store := snd (deleteBackup (f k) (fst k) (snd k) (store s))\<rparr>))))"
    by (rule Cons.IH)
  then show ?case
    by (auto simp: same_control_def emit_def split: prod.splits)
qed

lemma snd_rewrap:
  "snd (case p of (Threw e, s2) \<Rightarrow> (Threw e, s2) | (Returned u, s2) \<Rightarrow> (Returned True, s2)) = snd p"
  by (auto split: prod.splits outcome.splits)

lemma cleanupOldBackups_snd:
  "snd (cleanupOldBackups settings w s) = emit [IdbGetAllKeys] s
   \<or> (\<exists>ks. snd (cleanupOldBackups settings w s) = snd (deleteAll (idbDeleteOldest w) ks (emit [IdbGetAllKeys] s)))"
  by (auto simp: cleanupOldBackups_def Let_def split: outcome.splits)

lemma cleanupOldBackups_control: "same_control s (snd (cleanupOldBackups settings w s))"
proof -
  have a: "same_control s (emit [IdbGetAllKeys] s)" by simp
  have b: "same_control s (snd (deleteAll (idbDeleteOldest w) ks (emit [IdbGetAllKeys] s)))" for ks
    using same_control_trans[OF a deleteAll_control] .
  from cleanupOldBackups_snd[of settings w s] a b show ?thesis by auto
qed

lemma cleanupOldBackups_subset: "set (store (snd (cleanupOldBackups settings w s))) \<subseteq> set (store s)"
proof -
  have b: "set (store (snd (deleteAll (idbDeleteOldest w) ks (emit [IdbGetAllKeys] s)))) \<subseteq> set (store s)" for ks
    using deleteAll_store_subset[of "idbDeleteOldest w" ks "emit [IdbGetAllKeys] s"] by (simp add: emit_def)
  from cleanupOldBackups_snd[of settings w s]
  consider "snd (cleanupOldBackups settings w s) = emit [IdbGetAllKeys] s"
    | ks where "snd (cleanupOldBackups settings w s) = snd (deleteAll (idbDeleteOldest w) ks (emit [IdbGetAllKeys] s))"
    by blast
  then show ?thesis
  proof cases
    case 1
    then show ?thesis by (simp add: emit_def)
  next
    case 2
    then show ?thesis using b[of ks] by simp
  qed
qed

lemma saveAndCleanup_snd:
  "snd (saveAndCleanup settings w b s) =
     (if idbSave w = Completes
      then snd (cleanupOldBackups settings w ((emit [IdbPut (key_of b)] s)\<lparr>store := idb_put b (store s)\<rparr>))
      else emit [IdbPut (key_of b)] s)"
  by (auto simp: saveAndCleanup_def saveBackupToDB_def Let_def emit_def snd_rewrap
           split: idb.splits prod.splits outcome.splits)

lemma saveAndCleanup_control: "same_control s (snd (saveAndCleanup settings w b s))"
  using cleanupOldBackups_control[of "(emit [IdbPut (key_of b)] s)\<lparr>store := idb_put b (store s)\<rparr>" settings w]
  by (auto simp: saveAndCleanup_snd intro: same_control_trans[rotated])

lemma set_idb_put: "set (idb_put b st) \<subseteq> insert b (set st)"
  by (auto simp: idb_put_def set_insort_key)

lemma set_idb_delete: "set (idb_delete k st) \<subseteq> set st"
  by (auto simp: idb_delete_def)

lemma saveAndCleanup_subset: "set (store (snd (saveAndCleanup settings w b s))) \<subseteq> insert b (set (store s))"
  using cleanupOldBackups_subset[of settings w "(emit [IdbPut (key_of b)] s)\<lparr>store := idb_put b (store s)\<rparr>"]
        set_idb_put[of b "store s"]
  by (auto simp: saveAndCleanup_snd emit_def)

lemma find_Some_set: "find P xs = Some e \<Longrightarrow> e \<in> set xs \<and> P e"
  by (induction xs) (auto split: if_splits)

lemma find_filter_Some:
  "find P (filter Q xs) = Some e \<Longrightarrow> e \<in> set xs \<and> P e \<and> Q e"
  by (induction xs) (auto split: if_splits)

lemma storeBackup_skip:
  assumes "idbGetBackupsForChat w = Completes"
    and "find (\<lambda>x. lastMessageId x = lastMessageId b) (filter (\<lambda>x. chatKey x = chatKey b) (store s)) = Some e"
    and "\<not> timestamp e < timestamp b"
  shows "storeBackup settings w b s = (Returned False, emit [IdbGetAll (chatKey b)] s)"
  using assms by (simp add: storeBackup_def getBackupsForChat_def Let_def emit_def)

lemma storeBackup_supersede:
  assumes "idbGetBackupsForChat w = Completes"
    and "find (\<lambda>x. lastMessageId x = lastMessageId b) (filter (\<lambda>x. chatKey x = chatKey b) (store s)) = Some e"
    and "timestamp e < timestamp b"
    and "idbDeleteExisting w = Completes"
  shows "storeBackup settings w b s =
           saveAndCleanup settings w b
             ((emit [IdbGetAll (chatKey b), IdbDelete (chatKey b, timestamp e)] s)
                \<lparr>store := idb_delete (chatKey b, timestamp e) (store s)\<rparr>)"
  using assms by (simp add: storeBackup_def getBackupsForChat_def deleteBackup_def Let_def emit_def)

lemma storeBackup_fresh:
  assumes "idbGetBackupsForChat w = Completes"
    and "find (\<lambda>x. lastMessageId x = lastMessageId b) (filter (\<lambda>x. chatKey x = chatKey b) (store s)) = None"
  shows "storeBackup settings w b s = saveAndCleanup settings w b (emit [IdbGetAll (chatKey b)] s)"
  using assms by (simp add: storeBackup_def getBackupsForChat_def Let_def emit_def)

lemma storeBackup_cases:
  assumes sb: "storeBackup settings w b s = (r, s')"
  shows "(\<exists>e. r = Threw e \<and> store s' = store s \<and> same_control s s')
       \<or> (r = Returned False \<and> store s' = store s \<and> same_control s s'
            \<and> (\<exists>e\<in>set (store s). chatKey e = chatKey b \<and> lastMessageId e = lastMessageId b
                   \<and> timestamp b \<le> timestamp e))
       \<or> (\<exists>t. same_control s t
             \<and> (store t = store s
                 \<or> (\<exists>e\<in>set (store s). chatKey e = chatKey b \<and> lastMessageId e = lastMessageId b
                       \<and> timestamp e < timestamp b \<and> store t = idb_delete (key_of e) (store s)))
             \<and> saveAndCleanup settings w b t = (r, s'))"
proof -
  let ?s1 = "emit [IdbGetAll (chatKey b)] s"
  show ?thesis
  proof (cases "getBackupsForChat (idbGetBackupsForChat w) (chatKey b) (store s)")
    case (Threw e)
    with sb have "r = Threw e" "s' = ?s1"
      by (simp_all add: storeBackup_def Let_def emit_def)
    moreover have "same_control s ?s1" "store ?s1 = store s" by (simp_all add: emit_def same_control_def)
    ultimately show ?thesis by blast
  next
    case (Returned existingBackups)
    then have sub: "set existingBackups \<subseteq> {x \<in> set (store s). chatKey x = chatKey b}"
      by (auto simp: getBackupsForChat_def split: idb.splits)
    show ?thesis
    proof (cases "find (\<lambda>x. lastMessageId x = lastMessageId b) existingBackups")
      case None
      with sb Returned have "saveAndCleanup settings w b ?s1 = (r, s')"
        by (simp add: storeBackup_def Let_def emit_def)
      moreover have "same_control s ?s1" "store ?s1 = store s" by (simp_all add: emit_def same_control_def)
      ultimately show ?thesis by blast
    next
      case (Some e)
      then have e: "e \<in> set (store s)" "chatKey e = chatKey b" "lastMessageId e = lastMessageId b"
        using sub find_Some_set[OF Some] by auto
      show ?thesis
      proof (cases "timestamp e < timestamp b")
        case False
        with sb Returned Some have "r = Returned False" "s' = ?s1"
          by (simp_all add: storeBackup_def Let_def emit_def)
        moreover have "timestamp b \<le> timestamp e" using False by simp
        moreover have "same_control s ?s1" "store ?s1 = store s" by (simp_all add: emit_def same_control_def)
        ultimately show ?thesis using e by blast
      next
        case True
        let ?s2 = "emit [IdbDelete (chatKey b, timestamp e)] ?s1"
        show ?thesis
        proof (cases "idbDeleteExisting w = Completes")
          case False
          with sb Returned Some True have "r = Threw StorageError" "s' = ?s2\<lparr>store := store s\<rparr>"
            by (auto simp: storeBackup_def Let_def emit_def deleteBackup_def split: idb.splits)
          moreover have "same_control s (?s2\<lparr>store := store s\<rparr>)" "store (?s2\<lparr>store := store s\<rparr>) = store s"
            by (simp_all add: emit_def same_control_def)
          ultimately show ?thesis by blast
        next
          case c: True
          let ?t = "?s2\<lparr>store := idb_delete (chatKey b, timestamp e) (store s)\<rparr>"
          from sb Returned Some True c have "saveAndCleanup settings w b ?t = (r, s')"
            by (simp add: storeBackup_def Let_def emit_def deleteBackup_def)
          moreover have "same_control s ?t" by (simp add: emit_def same_control_def)
          moreover have "store ?t = idb_delete (key_of e) (store s)" using e by (simp add: key_of_def)
          ultimately show ?thesis using e True by blast
        qed
      qed
    qed
  qed
qed

lemma saveAndCleanup_result:
  "saveAndCleanup settings w b s = (r, s') \<Longrightarrow> r = Returned True \<or> (\<exists>e. r = Threw e)"
  by (auto simp: saveAndCleanup_def Let_def split: prod.splits outcome.splits)

lemma storeBackup_control: "same_control s (snd (storeBackup settings w b s))"
proof -
  obtain r s' where sb: "storeBackup settings w b s = (r, s')" by fastforce
  from storeBackup_cases[OF sb]
  consider "same_control s s'"
    | t where "same_control s t" "saveAndCleanup settings w b t = (r, s')"
    by blast
  then have "same_control s s'"
  proof cases
    case 1
    then show ?thesis .
  next
    case 2
    from saveAndCleanup_control[of t settings w b] 2(2) have "same_control t s'" by simp
    with 2(1) show ?thesis by (rule same_control_trans)
  qed
  then show ?thesis by (simp add: sb)
qed

lemma storeBackup_subset: "set (store (snd (storeBackup settings w b s))) \<subseteq> insert b (set (store s))"
proof -
  obtain r s' where sb: "storeBackup settings w b s = (r, s')" by fastforce
  have "store s' = store s
        \<or> (\<exists>t. set (store t) \<subseteq> set (store s) \<and> saveAndCleanup settings w b t = (r, s'))"
    using storeBackup_cases[OF sb]
  proof (elim disjE)
    assume "\<exists>t. same_control s t
             \<and> (store t = store s
                 \<or> (\<exists>e\<in>set (store s). chatKey e = chatKey b \<and> lastMessageId e = lastMessageId b
                       \<and> timestamp e < timestamp b \<and> store t = idb_delete (key_of e) (store s)))
             \<and> saveAndCleanup settings w b t = (r, s')"
    then obtain t where t: "store t = store s \<or> (\<exists>e. store t = idb_delete (key_of e) (store s))"
      and sc: "saveAndCleanup settings w b t = (r, s')" by blast
    from t have "set (store t) \<subseteq> set (store s)" by (auto simp: idb_delete_def)
    with sc show ?thesis by blast
  qed blast+
  then consider "store s' = store s"
    | t where "set (store t) \<subseteq> set (store s)" "saveAndCleanup settings w b t = (r, s')"
    by blast
  then have "set (store s') \<subseteq> insert b (set (store s))"
  proof cases
    case 1
    then show ?thesis by auto
  next
    case 2
    with saveAndCleanup_subset[of settings w b t] show ?thesis by auto
  qed
  then show ?thesis by (simp add: sb)
qed

lemma Core_active:
  assumes "getCurrentChatKey w = Some ck" "chat (getContext w) = Some ms" "ms \<noteq> []"
  shows "executeBackupLogic_Core settings w s =
     (case previewOf (last ms) of
        Inl e \<Rightarrow> (Threw e, emit [GetContext, GetContext, GetContext] s)
      | Inr preview \<Rightarrow>
          (case fetchRawChatData w (getCurrentChatInfo w) of
             (Inl e, es) \<Rightarrow> (Threw e, emit ([GetContext, GetContext, GetContext] @ es) s)
           | (Inr raw, es) \<Rightarrow>
               storeBackup settings w
                 (buildBackup w ck (getCurrentChatInfo w) (int (length ms) - 1) preview raw)
                 (emit ([GetContext, GetContext, GetContext] @ es) s)))"
  using assms
  by (cases ms) (auto simp: executeBackupLogic_Core_def Let_def emit_def split: sum.splits prod.splits)

lemma Core_skip:
  assumes "getCurrentChatKey w = None \<or> chatIsEmpty (getContext w)"
  shows "\<exists>n. executeBackupLogic_Core settings w s = (Returned False, emit (replicate n GetContext) s)"
proof (cases "getCurrentChatKey w")
  case None
  then have "executeBackupLogic_Core settings w s = (Returned False, emit (replicate 1 GetContext) s)"
    by (simp add: executeBackupLogic_Core_def Let_def)
  then show ?thesis ..
next
  case (Some ck)
  with assms have "chatIsEmpty (getContext w)" by simp
  with Some have "executeBackupLogic_Core settings w s = (Returned False, emit (replicate 3 GetContext) s)"
    by (auto simp: executeBackupLogic_Core_def Let_def chatIsEmpty_def emit_def numeral_3_eq_3 split: option.splits list.splits)
  then show ?thesis ..
qed

lemma Core_cases:
  assumes core: "executeBackupLogic_Core settings w s = (r, s')"
  shows "(r = Returned False \<and> store s' = store s \<and> same_control s s'
            \<and> (getCurrentChatKey w = None \<or> chatIsEmpty (getContext w)))
       \<or> (\<exists>e. r = Threw e \<and> store s' = store s \<and> same_control s s')
       \<or> (\<exists>b s2 ck ms. getCurrentChatKey w = Some ck \<and> chat (getContext w) = Some ms \<and> ms \<noteq> []
             \<and> timestamp b = now w \<and> chatKey b = ck \<and> lastMessageId b = int (length ms) - 1
             \<and> store s2 = store s \<and> same_control s s2
             \<and> storeBackup settings w b s2 = (r, s'))"
proof (cases "getCurrentChatKey w = None \<or> chatIsEmpty (getContext w)")
  case True
  from Core_skip[OF True, of settings s] core obtain n where "r = Returned False" "s' = emit (replicate n GetContext) s"
    by auto
  with True show ?thesis by (simp add: emit_def same_control_def)
next
  case False
  then obtain ck ms where k: "getCurrentChatKey w = Some ck" and m: "chat (getContext w) = Some ms" "ms \<noteq> []"
    by (auto simp: chatIsEmpty_def split: option.splits)
  note u = Core_active[OF k m, of settings s]
  show ?thesis
  proof (cases "previewOf (last ms)")
    case (Inl e)
    with u core have "r = Threw e" "s' = emit [GetContext, GetContext, GetContext] s" by simp_all
    then show ?thesis by (simp add: emit_def same_control_def)
  next
    case (Inr preview)
    obtain fr es where f: "fetchRawChatData w (getCurrentChatInfo w) = (fr, es)" by fastforce
    show ?thesis
    proof (cases fr)
      case (Inl e)
      with u core Inr f have "r = Threw e" "s' = emit ([GetContext, GetContext, GetContext] @ es) s" by simp_all
      then show ?thesis by (simp add: emit_def same_control_def)
    next
      case (Inr raw)
      let ?b = "buildBackup w ck (getCurrentChatInfo w) (int (length ms) - 1) preview raw"
      let ?s2 = "emit ([GetContext, GetContext, GetContext] @ es) s"
      from u core \<open>previewOf (last ms) = Inr preview\<close> f Inr
      have "storeBackup settings w ?b ?s2 = (r, s')" by simp
      moreover have "timestamp ?b = now w" "chatKey ?b = ck" "lastMessageId ?b = int (length ms) - 1"
        by (simp_all add: buildBackup_def)
      moreover have "store ?s2 = store s" "same_control s ?s2" by (simp_all add: emit_def same_control_def)
      ultimately show ?thesis using k m by blast
    qed
  qed
qed

subsection \<open>Storing over an older snapshot\<close>

lemma filter_insort_key_single:
  "filter P xs = [] \<Longrightarrow> P b \<Longrightarrow> filter P (insort_key f b xs) = [b]"
  by (induction xs) (auto split: if_splits)

lemma length_idb_put: "length (idb_put b st) \<le> Suc (length st)"
  by (simp add: idb_put_def le_SucI)

lemma length_idb_delete: "e \<in> set st \<Longrightarrow> length (idb_delete (key_of e) st) < length st"
  unfolding idb_delete_def by (rule length_filter_less) auto

lemma oldestKeys_none: "int (length st) \<le> N \<Longrightarrow> oldestKeys N st = []"
  by (simp add: oldestKeys_def)

lemma keys_idb_put: "key_of ` set (idb_put b st) \<subseteq> insert (key_of b) (key_of ` set st)"
  using set_idb_put[of b st] by auto

lemma Core_builds:
  assumes key: "getCurrentChatKey w = Some ck"
    and msgs: "chat (getContext w) = Some ms" "ms \<noteq> []"
    and core: "executeBackupLogic_Core settings w s = (Returned r, s')"
  shows "\<exists>b s2. timestamp b = now w \<and> chatKey b = ck \<and> lastMessageId b = int (length ms) - 1
           \<and> store s2 = store s \<and> same_control s s2 \<and> storeBackup settings w b s2 = (Returned r, s')"
  using Core_cases[OF core] key msgs by (auto simp: chatIsEmpty_def)

subsection \<open>The coordinator around the cycle\<close>

lemma Core_control: "same_control s (snd (executeBackupLogic_Core settings w s))"
proof -
  obtain r s' where core: "executeBackupLogic_Core settings w s = (r, s')" by fastforce
  from Core_cases[OF core]
  consider "same_control s s'"
    | b s2 where "same_control s s2" "storeBackup settings w b s2 = (r, s')"
    by blast
  then have "same_control s s'"
  proof cases
    case 1
    then show ?thesis .
  next
    case 2
    from storeBackup_control[of s2 settings w b] 2(2) have "same_control s2 s'" by simp
    with 2(1) show ?thesis by (rule same_control_trans)
  qed
  then show ?thesis by (simp add: core)
qed

lemma Core_store_subset:
  "set (store (snd (executeBackupLogic_Core settings w s)))
     \<subseteq> set (store s) \<union> {b. Some (chatKey b) = getCurrentChatKey w \<and> timestamp b = now w}"
proof -
  obtain r s' where core: "executeBackupLogic_Core settings w s = (r, s')" by fastforce
  from Core_cases[OF core]
  consider "store s' = store s"
    | b s2 where "Some (chatKey b) = getCurrentChatKey w" "timestamp b = now w" "store s2 = store s"
        "storeBackup settings w b s2 = (r, s')"
    by force
  then have "set (store s') \<subseteq> set (store s) \<union> {b. Some (chatKey b) = getCurrentChatKey w \<and> timestamp b = now w}"
  proof cases
    case 1
    then show ?thesis by auto
  next
    case 2
    from storeBackup_subset[of settings w b s2] 2 show ?thesis by auto
  qed
  then show ?thesis by (simp add: core)
qed

lemma tryBackup_snd:
  "\<exists>es. snd (tryBackup cs w s) = emit es (snd (executeBackupLogic_Core cs w s))"
proof (cases "executeBackupLogic_Core cs w s")
  case (Pair r s')
  show ?thesis
  proof (cases r)
    case (Returned ok)
    show ?thesis
    proof (cases ok)
      case True
      with Pair Returned have "snd (tryBackup cs w s) = emit [UpdateBackupsList] (snd (executeBackupLogic_Core cs w s))"
        by (simp add: tryBackup_def updateBackupsList_def)
      then show ?thesis ..
    next
      case False
      with Pair Returned have "snd (tryBackup cs w s) = emit [] (snd (executeBackupLogic_Core cs w s))"
        by (simp add: tryBackup_def emit_def)
      then show ?thesis ..
    qed
  next
    case (Threw e)
    with Pair have "snd (tryBackup cs w s) = emit [Toastr ToastError] (snd (executeBackupLogic_Core cs w s))"
      by (simp add: tryBackup_def)
    then show ?thesis ..
  qed
qed

lemma tryBackup_fst:
  "fst (tryBackup cs w s) = (fst (executeBackupLogic_Core cs w s) = Returned True)"
  by (cases "executeBackupLogic_Core cs w s") (auto simp: tryBackup_def split: outcome.splits)

lemma performBackupConditional_active:
  assumes "\<not> isBackupInProgress s" "getCurrentChatKey w \<noteq> None" "\<not> chatIsEmpty (getContext w)"
    and "extension_settings w = Some cs"
  shows "performBackupConditional w s =
     (Some (fst (tryBackup cs w ((emit [GetContext, GetContext] s)\<lparr>isBackupInProgress := True\<rparr>))),
      releaseLock (snd (tryBackup cs w ((emit [GetContext, GetContext] s)\<lparr>isBackupInProgress := True\<rparr>))))"
  using assms by (auto simp: performBackupConditional_def Let_def split: prod.splits)

lemma performBackupConditional_inactive:
  assumes "\<not> isBackupInProgress s"
    and "getCurrentChatKey w = None \<or> chatIsEmpty (getContext w) \<or> extension_settings w = None"
  shows "performBackupConditional w s = (Some False, emit [GetContext, GetContext] s)"
  using assms by (auto simp: performBackupConditional_def Let_def split: option.splits)

lemma replicate_GetContext_quiet:
  "filter is_error_toast (replicate n GetContext) = []" "filter is_store_write (replicate n GetContext) = []"
  by (induction n) simp_all

subsection \<open>The debounce timer\<close>

lemma clearTimeout_tracked:
  "timer_tracked s \<Longrightarrow> timers (clearTimeout (backupTimeout s) s) = []"
  by (cases "backupTimeout s") (auto simp: timer_tracked_def clearTimeout_def filter_empty_conv)

lemma clearTimeout_fields:
  "store (clearTimeout h s) = store s" "calls (clearTimeout h s) = calls s"
  "nextTimer (clearTimeout h s) = nextTimer s" "isBackupInProgress (clearTimeout h s) = isBackupInProgress s"
  "backupTimeout (clearTimeout h s) = backupTimeout s"
  by (simp_all add: clearTimeout_def split: option.splits)

lemma performBackupDebounced_scheduled:
  assumes "timer_tracked s" "getCurrentChatKey w = Some k" "delayOf w = Some d"
  shows "performBackupDebounced w s =
     (emit [GetContext] s)\<lparr>timers := [\<lparr>t_id = nextTimer s, t_scheduledChatKey = k, t_delay = d\<rparr>],
        nextTimer := Suc (nextTimer s), backupTimeout := Some (nextTimer s)\<rparr>"
proof -
  have tr: "timer_tracked (emit [GetContext] s)" using assms(1) by (simp add: timer_tracked_def emit_def)
  have b: "backupTimeout (emit [GetContext] s) = backupTimeout s" by (simp add: emit_def)
  from clearTimeout_tracked[OF tr]
  have "clearTimeout (backupTimeout s) (emit [GetContext] s) = (emit [GetContext] s)\<lparr>timers := []\<rparr>"
    by (cases "backupTimeout s") (simp_all add: clearTimeout_def b emit_def)
  then show ?thesis
    using assms(2,3) by (simp add: performBackupDebounced_def Let_def delayOf_def setTimeout_def b emit_def)
qed

lemma performBackupDebounced_cancelled:
  assumes "timer_tracked s" "getCurrentChatKey w = None \<or> delayOf w = None"
  shows "performBackupDebounced w s = (emit [GetContext] s)\<lparr>timers := [], backupTimeout := None\<rparr>"
proof -
  have tr: "timer_tracked (emit [GetContext] s)" using assms(1) by (simp add: timer_tracked_def emit_def)
  have b: "backupTimeout (emit [GetContext] s) = backupTimeout s" by (simp add: emit_def)
  from clearTimeout_tracked[OF tr]
  have "clearTimeout (backupTimeout s) (emit [GetContext] s) = (emit [GetContext] s)\<lparr>timers := []\<rparr>"
    by (cases "backupTimeout s") (simp_all add: clearTimeout_def b emit_def)
  then show ?thesis
    using assms(2) by (auto simp: performBackupDebounced_def Let_def delayOf_def b split: option.splits)
qed

lemma performBackupConditional_control:
  "timers (snd (performBackupConditional w s)) = timers s"
  "backupTimeout (snd (performBackupConditional w s)) = backupTimeout s"
  "nextTimer (snd (performBackupConditional w s)) = nextTimer s"
proof -
  have "timers (snd (performBackupConditional w s)) = timers s
      \<and> backupTimeout (snd (performBackupConditional w s)) = backupTimeout s
      \<and> nextTimer (snd (performBackupConditional w s)) = nextTimer s"
  proof (cases "isBackupInProgress s")
    case True
    then show ?thesis by (simp add: performBackupConditional_def)
  next
    case idle: False
    show ?thesis
    proof (cases "getCurrentChatKey w = None \<or> chatIsEmpty (getContext w) \<or> extension_settings w = None")
      case True
      from performBackupConditional_inactive[OF idle True] show ?thesis by (simp add: emit_def)
    next
      case False
      then obtain cs where a: "getCurrentChatKey w \<noteq> None" "\<not> chatIsEmpty (getContext w)"
        "extension_settings w = Some cs" by auto
      let ?run = "(emit [GetContext, GetContext] s)\<lparr>isBackupInProgress := True\<rparr>"
      from tryBackup_snd[of cs w ?run] obtain es where
        t: "snd (tryBackup cs w ?run) = emit es (snd (executeBackupLogic_Core cs w ?run))" ..
      have "timers (snd (tryBackup cs w ?run)) = timers (snd (executeBackupLogic_Core cs w ?run))"
        "backupTimeout (snd (tryBackup cs w ?run)) = backupTimeout (snd (executeBackupLogic_Core cs w ?run))"
        "nextTimer (snd (tryBackup cs w ?run)) = nextTimer (snd (executeBackupLogic_Core cs w ?run))"
        unfolding t by (simp_all add: emit_def)
      moreover from Core_control[of ?run cs w]
      have "timers (snd (executeBackupLogic_Core cs w ?run)) = timers s"
        "backupTimeout (snd (executeBackupLogic_Core cs w ?run)) = backupTimeout s"
        "nextTimer (snd (executeBackupLogic_Core cs w ?run)) = nextTimer s"
        by (simp_all add: same_control_def emit_def)
      ultimately show ?thesis
        unfolding performBackupConditional_active[OF idle a]
        by (simp add: releaseLock_def)
    qed
  qed
  then show "timers (snd (performBackupConditional w s)) = timers s"
    "backupTimeout (snd (performBackupConditional w s)) = backupTimeout s"
    "nextTimer (snd (performBackupConditional w s)) = nextTimer s" by simp_all
qed

lemma performBackupConditional_store_subset:
  "set (store (snd (performBackupConditional w s)))
     \<subseteq> set (store s) \<union> {b. Some (chatKey b) = getCurrentChatKey w \<and> timestamp b = now w}"
proof (cases "isBackupInProgress s")
  case True
  then show ?thesis by (simp add: performBackupConditional_def)
next
  case idle: False
  show ?thesis
  proof (cases "getCurrentChatKey w = None \<or> chatIsEmpty (getContext w) \<or> extension_settings w = None")
    case True
    from performBackupConditional_inactive[OF idle True] show ?thesis by (simp add: emit_def)
  next
    case False
    then obtain cs where a: "getCurrentChatKey w \<noteq> None" "\<not> chatIsEmpty (getContext w)"
      "extension_settings w = Some cs" by auto
    let ?run = "(emit [GetContext, GetContext] s)\<lparr>isBackupInProgress := True\<rparr>"
    from tryBackup_snd[of cs w ?run] obtain es where
      t: "snd (tryBackup cs w ?run) = emit es (snd (executeBackupLogic_Core cs w ?run))" ..
    have "store (snd (tryBackup cs w ?run)) = store (snd (executeBackupLogic_Core cs w ?run))"
      unfolding t by (simp add: emit_def)
    moreover from Core_store_subset[of cs w ?run]
    have "set (store (snd (executeBackupLogic_Core cs w ?run)))
       \<subseteq> set (store s) \<union> {b. Some (chatKey b) = getCurrentChatKey w \<and> timestamp b = now w}"
      by (simp add: emit_def)
    ultimately show ?thesis
      unfolding performBackupConditional_active[OF idle a]
      by (simp add: releaseLock_def)
  qed
qed

lemma fireTimer_single:
  assumes "timers s = [t]"
  shows "fireTimer (t_id t) w s = debouncedCallback (t_scheduledChatKey t) w (s\<lparr>timers := []\<rparr>)"
  using assms by (simp add: fireTimer_def)

lemma fireTimer_absent:
  assumes "i \<notin> t_id ` set (timers s)"
  shows "fireTimer i w s = s"
proof -
  have "find (\<lambda>t. t_id t = i) (timers s) = None" using assms by (auto simp: find_None_iff)
  then show ?thesis by (simp add: fireTimer_def)
qed


lemma debouncedCallback_other:
  assumes "getCurrentChatKey w \<noteq> Some k"
  shows "debouncedCallback k w s = (emit [GetContext] s)\<lparr>backupTimeout := None\<rparr>"
  using assms by (simp add: debouncedCallback_def Let_def)

lemma debouncedCallback_same:
  assumes "getCurrentChatKey w = Some k"
  shows "debouncedCallback k w s = (snd (performBackupConditional w (emit [GetContext] s)))\<lparr>backupTimeout := None\<rparr>"
  using assms by (simp add: debouncedCallback_def Let_def)

subsection \<open>The lines of a restored chat\<close>

lemma stringify_members_map:
  "stringify_members fs = map (\<lambda>(k, v). quote k @ '':'' @ stringify v) fs"
  by (induction fs) auto

lemma stringify_elements_map: "stringify_elements xs = map stringify xs"
  by (induction xs) auto

lemma digit_no_lf: "k < 10 \<Longrightarrow> ''0123456789'' ! k \<noteq> CHR 0x0A"
proof -
  assume "k < 10"
  then have "''0123456789'' ! k \<in> set ''0123456789''" by (intro nth_mem) simp
  then show ?thesis by auto
qed

lemma show_nat_no_lf: "CHR 0x0A \<notin> set (show_nat n)"
proof (induction n rule: show_nat.induct)
  case (1 n)
  show ?case
  proof (cases "n < 10")
    case True
    then show ?thesis using digit_no_lf[of n] by simp
  next
    case False
    then have "show_nat n = show_nat (n div 10) @ [''0123456789'' ! (n mod 10)]"
      by (simp add: show_nat_more)
    moreover have "CHR 0x0A \<notin> set (show_nat (n div 10))" using 1 False by simp
    moreover have "''0123456789'' ! (n mod 10) \<noteq> CHR 0x0A" by (rule digit_no_lf) simp
    ultimately show ?thesis by simp
  qed
qed

lemma show_int_no_lf: "CHR 0x0A \<notin> set (show_int i)"
  by (simp add: show_int_def show_nat_no_lf)

lemma hex_no_lf: "k < 16 \<Longrightarrow> ''0123456789abcdef'' ! k \<noteq> CHR 0x0A"
proof -
  assume "k < 16"
  then have "''0123456789abcdef'' ! k \<in> set ''0123456789abcdef''" by (intro nth_mem) simp
  then show ?thesis by auto
qed

lemma escape_char_no_lf: "CHR 0x0A \<notin> set (escape_char c)"
proof -
  have "(of_char c :: nat) < 0x20 \<Longrightarrow> (of_char c :: nat) div 16 < 16" by simp
  moreover have "(of_char c :: nat) mod 16 < 16" by simp
  ultimately show ?thesis
    using hex_no_lf[of "of_char c div 16"] hex_no_lf[of "of_char c mod 16"]
    by (auto simp: escape_char_def)
qed

lemma quote_no_lf: "CHR 0x0A \<notin> set (quote t)"
  using escape_char_no_lf by (auto simp: quote_def)

lemma join_no_lf: "\<forall>x\<in>set xs. CHR 0x0A \<notin> set x \<Longrightarrow> CHR 0x0A \<notin> set (join xs)"
  by (induction xs rule: join.induct) auto

lemma stringify_no_lf:
  "CHR 0x0A \<notin> set (stringify v)"
  "\<forall>x\<in>set (stringify_elements xs). CHR 0x0A \<notin> set x"
  "\<forall>x\<in>set (stringify_members fs). CHR 0x0A \<notin> set x"
proof (induction v and xs and fs rule: stringify_stringify_elements_stringify_members.induct)
  case (3 n)
  then show ?case by (simp add: show_int_no_lf)
next
  case (4 t)
  then show ?case by (simp add: quote_no_lf)
next
  case (5 xs)
  then show ?case using join_no_lf by auto
next
  case (6 fs)
  then show ?case using join_no_lf by auto
next
  case (10 k v fs)
  then show ?case by (simp add: quote_no_lf)
qed auto

lemma count_lf_line: "count_list (stringify v @ [CHR 0x0A]) (CHR 0x0A) = 1"
  using stringify_no_lf(1)[of v] by (simp add: count_list_0_iff)

lemma count_lf_lines:
  "count_list (concat (map (\<lambda>msg. stringify msg @ [CHR 0x0A]) msgs)) (CHR 0x0A) = length msgs"
  using stringify_no_lf(1) by (induction msgs) (simp_all add: count_list_0_iff)

lemma count_lf_jsonl: "count_list (jsonl first msgs) (CHR 0x0A) = Suc (length msgs)"
  using stringify_no_lf(1)[of first] by (simp add: jsonl_def count_lf_lines count_list_0_iff)


lemma buildJsonl_character:
  "buildJsonl (b\<lparr>isGroup := False, rawChatData := JArr (first # msgs)\<rparr>) =
     Inr (jsonl (JObj [(''chat_metadata'',
                  or_empty_object (case first of JObj fs \<Rightarrow> map_of fs ''chat_metadata'' | _ \<Rightarrow> None))]) msgs,
          or_empty_object (case first of JObj fs \<Rightarrow> map_of fs ''chat_metadata'' | _ \<Rightarrow> None), msgs)"
  by (simp add: buildJsonl_def Let_def)

subsection \<open>What a restore records\<close>

lemma only_calls_refl: "only_calls s s"
proof -
  have "s = emit [] s \<and> filter is_store_write [] = []" by (simp add: emit_def)
  then show ?thesis unfolding only_calls_def by blast
qed

lemma only_calls_emit: "filter is_store_write es = [] \<Longrightarrow> only_calls s (emit es s)"
  unfolding only_calls_def by blast

lemma only_calls_trans:
  assumes "only_calls s t" "only_calls t u"
  shows "only_calls s u"
proof -
  from assms obtain es fs where "t = emit es s" "filter is_store_write es = []"
    "u = emit fs t" "filter is_store_write fs = []"
    unfolding only_calls_def by blast
  then have "u = emit (es @ fs) s \<and> filter is_store_write (es @ fs) = []"
    by (simp add: emit_def)
  then show ?thesis unfolding only_calls_def by blast
qed

lemma only_calls_store: "only_calls s s' \<Longrightarrow> store s' = store s \<and> same_control s s'"
  unfolding only_calls_def by (auto simp: emit_def same_control_def)

lemma only_calls_calls:
  "only_calls s s' \<Longrightarrow> \<exists>es. calls s' = calls s @ es \<and> filter is_store_write es = []"
  unfolding only_calls_def by (auto simp: emit_def)

lemma only_calls_after:
  "only_calls s t \<Longrightarrow> filter is_store_write es = [] \<Longrightarrow> only_calls s (emit es t)"
  by (rule only_calls_trans[OF _ only_calls_emit])

lemma switchToTarget_calls: "only_calls s (snd (switchToTarget rw b s))"
  by (simp add: switchToTarget_def Let_def only_calls_refl only_calls_emit split: option.splits prod.splits)

lemma loadNewChat_calls: "only_calls s (snd (loadNewChat rw b t i s))"
  by (simp add: loadNewChat_def only_calls_refl only_calls_emit)

lemma loadNewChat_after:
  "filter is_store_write es = [] \<Longrightarrow> only_calls s (snd (loadNewChat rw b t i (emit es s)))"
  by (rule only_calls_trans[OF only_calls_emit loadNewChat_calls])

lemma importAndLoad_calls: "only_calls s (snd (importAndLoad rw b t s))"
  by (simp add: importAndLoad_def Let_def only_calls_refl only_calls_emit loadNewChat_after
        split: sum.splits prod.splits response.splits option.splits)

lemma restoreSteps_calls: "only_calls s (snd (restoreSteps rw b s))"
proof -
  obtain r1 s1 where sw: "switchToTarget rw b (emit [GetContext] s) = (r1, s1)" by fastforce
  have "only_calls (emit [GetContext] s) s1"
    using switchToTarget_calls[of "emit [GetContext] s" rw b] by (simp add: sw)
  then have a: "only_calls s s1"
    by (rule only_calls_trans[OF only_calls_emit, rotated]) simp
  show ?thesis
  proof (cases r1)
    case (Inl e)
    with sw have "snd (restoreSteps rw b s) = emit [Toastr ToastError] s1"
      by (simp add: restoreSteps_def)
    with a show ?thesis by (simp add: only_calls_after)
  next
    case (Inr t)
    obtain r2 s2 where im: "importAndLoad rw b t s1 = (r2, s2)" by fastforce
    have "only_calls s1 s2" using importAndLoad_calls[of s1 rw b t] by (simp add: im)
    with a have b: "only_calls s s2" by (rule only_calls_trans)
    show ?thesis
    proof (cases r2)
      case (Inl e)
      with sw Inr im have "snd (restoreSteps rw b s) = emit [Toastr ToastError] s2"
        by (simp add: restoreSteps_def)
      with b show ?thesis by (simp add: only_calls_after)
    next
      case r: (Inr u)
      with sw Inr im have "snd (restoreSteps rw b s) =
          emit (if r_popupOpen rw then [ClosePopup] else [])
            (emit [UpdateBackupsList] (emit [Toastr ToastSuccess] s2))"
        by (simp add: restoreSteps_def updateBackupsList_def)
      with b show ?thesis by (simp add: only_calls_after)
    qed
  qed
qed

lemma restoreBackup_calls: "only_calls s (snd (restoreBackup rw b s))"
proof -
  let ?s1 = "emit [CallGenericPopup] s"
  let ?s2 = "emit [SaveChatConditional] ?s1"
  have a: "only_calls s ?s1" by (rule only_calls_emit) simp
  have b: "only_calls s ?s2" by (rule only_calls_after[OF a]) simp
  have c: "only_calls s (snd (restoreSteps rw b ?s1))"
    by (rule only_calls_trans[OF a restoreSteps_calls])
  have d: "only_calls s (snd (restoreSteps rw b ?s2))"
    by (rule only_calls_trans[OF b restoreSteps_calls])
  show ?thesis
    using a b c d
    by (simp add: restoreBackup_def Let_def only_calls_emit split: popup_result.splits)
qed

subsection \<open>The check of the fetched character chat\<close>

lemma validate_empty_array:
  "validateRawChatData c (JArr []) = Inr (JArr [or_empty_object (chatMetadata c)])"
  by (simp add: validateRawChatData_def malformed_def then_do_def)

lemma validate_well_formed:
  assumes "js_field ''chat_metadata'' x = Inr m" "truthy_opt m"
  shows "validateRawChatData c (JArr (x # xs)) = Inr (JArr (x # xs))"
  using assms by (simp add: validateRawChatData_def malformed_def then_do_def)

lemma validate_array_without_metadata:
  assumes "js_field ''chat_metadata'' x = Inr m" "\<not> truthy_opt m"
  shows "validateRawChatData c (JArr (x # xs)) = Inr (JArr (or_empty_object (chatMetadata c) # xs))"
  using assms by (simp add: validateRawChatData_def malformed_def then_do_def Let_def)

lemma validate_null_first:
  "validateRawChatData c (JArr (JNull # xs)) = Inl TypeError"
  by (simp add: validateRawChatData_def malformed_def then_do_def)

lemma validate_object_without_index:
  assumes "map_of fs ''length'' \<noteq> Some (JNum 0)" "map_of fs ''0'' = None"
  shows "validateRawChatData c (JObj fs) = Inl TypeError"
  using assms by (simp add: validateRawChatData_def malformed_def then_do_def Let_def)

lemma validate_primitive:
  "validateRawChatData c JNull = Inl TypeError"
  "validateRawChatData c (JBool b) = Inl TypeError"
  "validateRawChatData c (JNum n) = Inl TypeError"
  "validateRawChatData c (JStr (a # as)) = Inl TypeError"
  by (simp_all add: validateRawChatData_def malformed_def then_do_def Let_def)

subsection \<open>A cycle at the index of a stored snapshot\<close>

lemma same_index_cycle:
  assumes ok: "idb_completes w"
    and key: "getCurrentChatKey w = Some ck"
    and msgs: "chat (getContext w) = Some ms" "ms \<noteq> []"
    and stored: "find (\<lambda>x. lastMessageId x = int (length ms) - 1)
                   (filter (\<lambda>x. chatKey x = ck) (store s)) = Some e"
    and core: "executeBackupLogic_Core settings w s = (Returned r, s')"
  shows "(timestamp e < now w \<longrightarrow>
            r \<and> key_of e \<notin> key_of ` set (store s')
            \<and> (\<exists>b. key_of b = (ck, now w) \<and> lastMessageId b = int (length ms) - 1
                  \<and> store s' = filter (\<lambda>x. key_of x \<notin> set (oldestKeys (maxTotalBackups settings)
                                     (idb_put b (idb_delete (key_of e) (store s)))))
                                 (idb_put b (idb_delete (key_of e) (store s)))
                  \<and> (int (length (store s)) \<le> maxTotalBackups settings \<longrightarrow>
                        b \<in> set (store s') \<and> store s' = idb_put b (idb_delete (key_of e) (store s)))))
       \<and> (now w \<le> timestamp e \<longrightarrow> \<not> r \<and> store s' = store s)
       \<and> (sameIndex ck (int (length ms) - 1) (store s) = [e]
            \<and> int (length (store s)) \<le> maxTotalBackups settings \<longrightarrow>
            (\<exists>b. sameIndex ck (int (length ms) - 1) (store s') = [b]
                 \<and> timestamp b = max (timestamp e) (now w)))"
proof -
  let ?N = "maxTotalBackups settings"
  let ?i = "int (length ms) - 1"
  from Core_builds[OF key msgs core] obtain b s2 where
    b: "timestamp b = now w" "chatKey b = ck" "lastMessageId b = ?i"
    and s2: "store s2 = store s" and sb: "storeBackup settings w b s2 = (Returned r, s')"
    by blast
  from ok have g: "idbGetBackupsForChat w = Completes" and dl: "idbDeleteExisting w = Completes"
    and ak: "idbGetAllKeys w = Completes"
    by (simp_all add: idb_completes_def)
  from find_filter_Some[OF stored] have e: "e \<in> set (store s)" "lastMessageId e = ?i" "chatKey e = ck"
    by simp_all
  have f: "find (\<lambda>x. lastMessageId x = lastMessageId b) (filter (\<lambda>x. chatKey x = chatKey b) (store s2)) = Some e"
    using stored b s2 by simp
  let ?pre = "idb_put b (idb_delete (key_of e) (store s))"
  have older: "r \<and> key_of e \<notin> key_of ` set (store s')
      \<and> store s' = filter (\<lambda>x. key_of x \<notin> set (oldestKeys ?N ?pre)) ?pre
      \<and> (int (length (store s)) \<le> ?N \<longrightarrow> b \<in> set (store s') \<and> store s' = ?pre)"
    if lt: "timestamp e < now w"
  proof -
    from lt b have lt': "timestamp e < timestamp b" by simp
    let ?t = "(emit [IdbGetAll (chatKey b), IdbDelete (chatKey b, timestamp e)] s2)
                \<lparr>store := idb_delete (chatKey b, timestamp e) (store s2)\<rparr>"
    from storeBackup_supersede[OF g f lt' dl, of settings] sb
    have sc: "saveAndCleanup settings w b ?t = (Returned r, s')" by simp
    from saveAndCleanup_result[OF sc] have r: "r" by auto
    have st: "store ?t = idb_delete (key_of e) (store s)"
      using e b s2 by (simp add: key_of_def)
    from sc r have "saveAndCleanup settings w b ?t = (Returned True, s')" by simp
    from saveAndCleanup_True[OF this ak] st
    have fin: "store s' = filter (\<lambda>x. key_of x \<notin> set (oldestKeys ?N ?pre)) ?pre" by simp
    have ne: "key_of b \<noteq> key_of e" using lt' by (auto simp: key_of_def)
    have "key_of ` set ?pre \<subseteq> insert (key_of b) (key_of ` set (idb_delete (key_of e) (store s)))"
      by (rule keys_idb_put)
    moreover have "key_of e \<notin> key_of ` set (idb_delete (key_of e) (store s))"
      by (auto simp: idb_delete_def)
    ultimately have "key_of e \<notin> key_of ` set ?pre" using ne by auto
    then have gone: "key_of e \<notin> key_of ` set (store s')" by (auto simp: fin)
    have full: "b \<in> set (store s') \<and> store s' = ?pre" if le: "int (length (store s)) \<le> ?N"
    proof -
      have "length ?pre \<le> Suc (length (idb_delete (key_of e) (store s)))" by (rule length_idb_put)
      also have "\<dots> \<le> length (store s)" using length_idb_delete[OF e(1)] by simp
      finally have "int (length ?pre) \<le> ?N" using le by simp
      from oldestKeys_none[OF this] fin have "store s' = ?pre" by simp
      moreover have "b \<in> set ?pre" by (simp add: idb_put_def set_insort_key)
      ultimately show ?thesis by simp
    qed
    from r gone fin full show ?thesis by blast
  qed
  have newer: "\<not> r \<and> store s' = store s" if ge: "now w \<le> timestamp e"
  proof -
    from ge b have "\<not> timestamp e < timestamp b" by simp
    from storeBackup_skip[OF g f this, of settings] sb s2 show ?thesis by (auto simp: emit_def)
  qed
  have once: "\<exists>b'. sameIndex ck ?i (store s') = [b'] \<and> timestamp b' = max (timestamp e) (now w)"
    if one: "sameIndex ck ?i (store s) = [e]" and le: "int (length (store s)) \<le> ?N"
  proof (cases "timestamp e < now w")
    case True
    from older[OF True] le have fin: "store s' = ?pre" by blast
    have "filter (\<lambda>x. chatKey x = ck \<and> lastMessageId x = ?i)
            (filter (\<lambda>x. key_of x \<noteq> key_of b) (idb_delete (key_of e) (store s))) = []"
    proof -
      have "x \<in> set (store s) \<Longrightarrow> chatKey x = ck \<Longrightarrow> lastMessageId x = ?i \<Longrightarrow> x = e" for x
      proof -
        assume "x \<in> set (store s)" "chatKey x = ck" "lastMessageId x = ?i"
        then have "x \<in> set (sameIndex ck ?i (store s))" by (simp add: sameIndex_def)
        with one show "x = e" by simp
      qed
      then show ?thesis by (auto simp: filter_empty_conv idb_delete_def)
    qed
    then have "sameIndex ck ?i ?pre = [b]"
      unfolding sameIndex_def idb_put_def using b by (intro filter_insort_key_single) simp_all
    with fin b True show ?thesis by (auto simp: max_def)
  next
    case False
    then have "now w \<le> timestamp e" by simp
    from newer[OF this] one False show ?thesis by (auto simp: max_def)
  qed
  have kb: "key_of b = (ck, now w)" using b by (simp add: key_of_def)
  from older newer once kb b(3) show ?thesis by blast
qed

lemma newest_survives:
  assumes d: "distinct (map key_of pre)" and b: "b \<in> set pre"
    and newest: "\<forall>x\<in>set pre. x \<noteq> b \<longrightarrow> timestamp x < timestamp b"
    and N: "1 \<le> N"
  shows "key_of b \<notin> set (oldestKeys N pre)"
proof
  let ?srt = "sort_key snd (map key_of pre)"
  let ?n = "nat (int (length pre) - N)"
  assume "key_of b \<in> set (oldestKeys N pre)"
  then have inb: "key_of b \<in> set (take ?n ?srt)" by (simp add: oldestKeys_def)
  from b have "0 < length pre" by (cases pre) auto
  with N have "?n < length pre" by linarith
  then have "?n < length ?srt" by simp
  then have "drop ?n ?srt \<noteq> []" by simp
  then obtain y where y: "y \<in> set (drop ?n ?srt)" by (cases "drop ?n ?srt") auto
  have "distinct ?srt" using d by simp
  then have "distinct (take ?n ?srt @ drop ?n ?srt)" by simp
  then have "set (take ?n ?srt) \<inter> set (drop ?n ?srt) = {}" by (simp only: distinct_append)
  with inb y have ne: "y \<noteq> key_of b" by auto
  from y have "y \<in> set ?srt" by (rule in_set_dropD)
  then obtain x where x: "x \<in> set pre" "y = key_of x" by auto
  with ne have "x \<noteq> b" by auto
  with newest x have lt: "timestamp x < timestamp b" by simp
  have "sorted (map snd ?srt)" by simp
  from sorted_take_drop_le[OF this inb y] have "timestamp b \<le> timestamp x"
    by (simp add: x key_of_def)
  with lt show False by simp
qed

lemma find_of_single:
  "filter (\<lambda>x. Q x \<and> P x) xs = [b] \<Longrightarrow> find P (filter Q xs) = Some b"
  by (induction xs) (auto split: if_splits simp: find_None_iff filter_empty_conv)

lemma find_None_sameIndex:
  "find (\<lambda>x. lastMessageId x = i) (filter (\<lambda>x. chatKey x = ck) st) = None \<Longrightarrow> sameIndex ck i st = []"
  by (auto simp: find_None_iff sameIndex_def filter_empty_conv)

lemma sameIndex_single:
  assumes "length (sameIndex ck i st) \<le> 1" "e \<in> set st" "chatKey e = ck" "lastMessageId e = i"
  shows "sameIndex ck i st = [e]"
proof -
  from assms(2-4) have "e \<in> set (sameIndex ck i st)" by (simp add: sameIndex_def)
  with assms(1) show ?thesis by (cases "sameIndex ck i st") auto
qed

lemma sameIndex_idb_put:
  assumes "sameIndex ck i st = []" "chatKey b = ck" "lastMessageId b = i"
  shows "sameIndex ck i (idb_put b st) = [b]"
proof -
  from assms(1) have "filter (\<lambda>x. chatKey x = ck \<and> lastMessageId x = i) (filter (\<lambda>x. key_of x \<noteq> key_of b) st) = []"
    by (auto simp: sameIndex_def filter_empty_conv)
  then show ?thesis
    unfolding sameIndex_def idb_put_def using assms(2,3) by (intro filter_insort_key_single) simp_all
qed

lemma sameIndex_deleted:
  assumes "sameIndex ck i st = [e]"
  shows "sameIndex ck i (idb_delete (key_of e) st) = []"
proof -
  have "x \<in> set st \<Longrightarrow> chatKey x = ck \<Longrightarrow> lastMessageId x = i \<Longrightarrow> x = e" for x
  proof -
    assume "x \<in> set st" "chatKey x = ck" "lastMessageId x = i"
    then have "x \<in> set (sameIndex ck i st)" by (simp add: sameIndex_def)
    with assms show "x = e" by simp
  qed
  then show ?thesis by (auto simp: sameIndex_def idb_delete_def filter_empty_conv)
qed

text \<open>The first of two backups at one index: what it leaves.\<close>

lemma first_backup_leaves_one:
  assumes ok: "idb_completes w"
    and key: "getCurrentChatKey w = Some ck"
    and msgs: "chat (getContext w) = Some ms" "ms \<noteq> []"
    and core: "executeBackupLogic_Core settings w s = (Returned r, s')"
    and clock: "\<forall>x\<in>set (store s). timestamp x < now w"
    and N: "1 \<le> maxTotalBackups settings"
    and d: "distinct (map key_of (store s))"
    and u: "length (sameIndex ck (int (length ms) - 1) (store s)) \<le> 1"
  shows "\<exists>b. sameIndex ck (int (length ms) - 1) (store s') = [b] \<and> timestamp b = now w
           \<and> int (length (store s')) \<le> maxTotalBackups settings
           \<and> distinct (map key_of (store s'))"
proof -
  let ?N = "maxTotalBackups settings"
  let ?i = "int (length ms) - 1"
  from Core_builds[OF key msgs core] obtain b s2 where
    b: "timestamp b = now w" "chatKey b = ck" "lastMessageId b = ?i"
    and s2: "store s2 = store s" and sb: "storeBackup settings w b s2 = (Returned r, s')"
    by blast
  from ok have g: "idbGetBackupsForChat w = Completes" and dl: "idbDeleteExisting w = Completes"
    and ak: "idbGetAllKeys w = Completes"
    by (simp_all add: idb_completes_def)
  have "\<exists>X. set X \<subseteq> set (store s) \<and> distinct (map key_of X) \<and> sameIndex ck ?i X = []
          \<and> (\<exists>t. store t = X \<and> saveAndCleanup settings w b t = (Returned r, s'))"
  proof (cases "find (\<lambda>x. lastMessageId x = lastMessageId b) (filter (\<lambda>x. chatKey x = chatKey b) (store s2))")
    case None
    from storeBackup_fresh[OF g None, of settings] sb
    have "saveAndCleanup settings w b (emit [IdbGetAll (chatKey b)] s2) = (Returned r, s')" by simp
    moreover have "store (emit [IdbGetAll (chatKey b)] s2) = store s" by (simp add: emit_def s2)
    moreover have "sameIndex ck ?i (store s) = []"
      using find_None_sameIndex[of ?i ck "store s"] None b s2 by simp
    ultimately show ?thesis using d by blast
  next
    case (Some e)
    from find_filter_Some[OF Some] s2 b have e: "e \<in> set (store s)" "lastMessageId e = ?i" "chatKey e = ck"
      by simp_all
    from clock e(1) b(1) have lt: "timestamp e < timestamp b" by simp
    let ?t = "(emit [IdbGetAll (chatKey b), IdbDelete (chatKey b, timestamp e)] s2)
                \<lparr>store := idb_delete (chatKey b, timestamp e) (store s2)\<rparr>"
    from storeBackup_supersede[OF g Some lt dl, of settings] sb
    have "saveAndCleanup settings w b ?t = (Returned r, s')" by simp
    moreover have st: "store ?t = idb_delete (key_of e) (store s)"
      using e b s2 by (simp add: key_of_def)
    moreover have "sameIndex ck ?i (idb_delete (key_of e) (store s)) = []"
      by (rule sameIndex_deleted[OF sameIndex_single[OF u e(1) e(3) e(2)]])
    moreover have "set (idb_delete (key_of e) (store s)) \<subseteq> set (store s)" by (rule set_idb_delete)
    moreover have "distinct (map key_of (idb_delete (key_of e) (store s)))"
      using d by (rule distinct_idb_delete)
    ultimately show ?thesis by blast
  qed
  then obtain X t where X: "set X \<subseteq> set (store s)" "distinct (map key_of X)" "sameIndex ck ?i X = []"
    and t: "store t = X" and sc: "saveAndCleanup settings w b t = (Returned r, s')" by blast
  let ?pre = "idb_put b X"
  from saveAndCleanup_result[OF sc] have "r" by auto
  with sc have "saveAndCleanup settings w b t = (Returned True, s')" by simp
  from saveAndCleanup_True[OF this ak] t
  have fin: "store s' = filter (\<lambda>x. key_of x \<notin> set (oldestKeys ?N ?pre)) ?pre" by simp
  have dp: "distinct (map key_of ?pre)" using X(2) by (rule distinct_idb_put)
  have bin: "b \<in> set ?pre" by (simp add: idb_put_def set_insort_key)
  have "\<forall>x\<in>set ?pre. x \<noteq> b \<longrightarrow> timestamp x < timestamp b"
    using set_idb_put[of b X] X(1) clock b(1) by auto
  from newest_survives[OF dp bin this N] have keep: "key_of b \<notin> set (oldestKeys ?N ?pre)" .
  have "sameIndex ck ?i (store s') = filter (\<lambda>x. key_of x \<notin> set (oldestKeys ?N ?pre)) (sameIndex ck ?i ?pre)"
    unfolding fin sameIndex_def by (simp add: conj_commute)
  also have "sameIndex ck ?i ?pre = [b]" by (rule sameIndex_idb_put[OF X(3) b(2,3)])
  finally have one: "sameIndex ck ?i (store s') = [b]" using keep by simp
  from N have "0 \<le> ?N" by simp
  from retention_count[OF dp this] fin have "length (store s') = min (length ?pre) (nat ?N)" by simp
  with N have "int (length (store s')) \<le> ?N" by linarith
  moreover have "distinct (map key_of (store s'))" unfolding fin using dp by (simp add: distinct_map_filter)
  ultimately show ?thesis using one b(1) by blast
qed

text \<open>Two backups in succession at the same index.\<close>

lemma backup_twice_leaves_one:
  assumes ok: "idb_completes w1" "idb_completes w2"
    and key: "getCurrentChatKey w1 = Some ck" "getCurrentChatKey w2 = Some ck"
    and msgs: "chat (getContext w1) = Some ms1" "ms1 \<noteq> []"
              "chat (getContext w2) = Some ms2" "length ms2 = length ms1"
    and first: "executeBackupLogic_Core settings w1 s0 = (Returned r1, s1)"
    and second: "executeBackupLogic_Core settings w2 s1 = (Returned r2, s2)"
    and clock: "\<forall>x\<in>set (store s0). timestamp x < now w1" "now w1 \<le> now w2"
    and N: "1 \<le> maxTotalBackups settings"
    and d: "distinct (map key_of (store s0))"
    and u: "length (sameIndex ck (int (length ms1) - 1) (store s0)) \<le> 1"
  shows "\<exists>b. sameIndex ck (int (length ms1) - 1) (store s2) = [b] \<and> timestamp b = now w2"
proof -
  let ?i = "int (length ms1) - 1"
  from first_backup_leaves_one[OF ok(1) key(1) msgs(1,2) first clock(1) N d u]
  obtain b1 where b1: "sameIndex ck ?i (store s1) = [b1]" "timestamp b1 = now w1"
    and le: "int (length (store s1)) \<le> maxTotalBackups settings" by blast
  from msgs(2,4) have ne: "ms2 \<noteq> []" by auto
  have f: "find (\<lambda>x. lastMessageId x = int (length ms2) - 1) (filter (\<lambda>x. chatKey x = ck) (store s1)) = Some b1"
    using b1(1) msgs(4) by (intro find_of_single) (simp add: sameIndex_def)
  from same_index_cycle[OF ok(2) key(2) msgs(3) ne f second] b1(1) le msgs(4)
  obtain b where "sameIndex ck ?i (store s2) = [b]" "timestamp b = max (timestamp b1) (now w2)"
    by auto
  with b1(2) clock(2) show ?thesis by (auto simp: max_def)
qed

subsection \<open>The concrete run, evaluated\<close>

lemmas ex_defs = ex_world_def ex_state_def ex_settings_def ex_context_def ex_character_def ex_old_def

text \<open>Every world that shows the example chat builds the snapshot \<open>ex_new\<close>.\<close>

lemma ex_core_store:
  assumes "getContext w = ex_context" "characters w = [ex_character]" "now w = 200"
    and "fetched w = Body (JArr [JObj [(''chat_metadata'', JObj [(''x'', JNum 1)])], JObj [(''mes'', JStr ''hi'')]])"
  shows "executeBackupLogic_Core settings w s =
     storeBackup settings w ex_new (emit [GetContext, GetContext, GetContext, Fetch ''/api/chats/get''] s)"
proof -
  have k: "getCurrentChatKey w = Some ''char_0_chat1''"
    by (simp add: getCurrentChatKey_def assms ex_context_def template_def)
  have c: "chat (getContext w) = Some [JObj [(''mes'', JStr ''hi'')]]"
    by (simp add: assms ex_context_def)
  have i: "getCurrentChatInfo w =
      \<lparr>ci_entityName = ''Ann'', ci_chatName = ''chat1'', ci_entityId = Some ''0'', ci_isGroup = False\<rparr>"
    by (simp add: getCurrentChatInfo_def assms ex_context_def ex_character_def template_def str_or_def
          character_at_def)
  have f: "fetchRawChatData w
      \<lparr>ci_entityName = ''Ann'', ci_chatName = ''chat1'', ci_entityId = Some ''0'', ci_isGroup = False\<rparr>
      = (Inr (JArr [JObj [(''chat_metadata'', JObj [(''x'', JNum 1)])], JObj [(''mes'', JStr ''hi'')]], None),
         [Fetch ''/api/chats/get''])"
    by (simp add: fetchRawChatData_def assms ex_context_def ex_character_def character_at_def
          validateRawChatData_def malformed_def then_do_def)
  show ?thesis
    by (simp add: Core_active[OF k c] i f previewOf_def buildBackup_def ex_new_def assms)
qed

lemma ex_put: "idb_put ex_new [ex_old] = [ex_new, ex_old]"
  by (simp add: idb_put_def key_of_def ex_new_def ex_old_def)

lemma ex_keys: "key_of ex_new = (''char_0_chat1'', 200)" "key_of ex_old = (''char_1_other'', 100)"
  by (simp_all add: key_of_def ex_new_def ex_old_def)

lemma ex_fresh:
  "find (\<lambda>x. lastMessageId x = lastMessageId ex_new) (filter (\<lambda>x. chatKey x = chatKey ex_new) [ex_old]) = None"
  by (simp add: ex_new_def ex_old_def)

lemma ex_run:
  "executeBackupLogic_Core ex_settings ex_world ex_state =
     (Returned True, ex_state\<lparr>store := [ex_new],
        calls := [GetContext, GetContext, GetContext, Fetch ''/api/chats/get'',
                  IdbGetAll ''char_0_chat1'', IdbPut (''char_0_chat1'', 200), IdbGetAllKeys,
                  IdbDelete (''char_1_other'', 100)]\<rparr>)"
proof -
  have "executeBackupLogic_Core ex_settings ex_world ex_state =
     storeBackup ex_settings ex_world ex_new
       (emit [GetContext, GetContext, GetContext, Fetch ''/api/chats/get''] ex_state)"
    by (rule ex_core_store) (simp_all add: ex_world_def)
  also have "\<dots> = saveAndCleanup ex_settings ex_world ex_new
       (emit [IdbGetAll (chatKey ex_new)] (emit [GetContext, GetContext, GetContext, Fetch ''/api/chats/get''] ex_state))"
    by (rule storeBackup_fresh) (simp_all add: ex_world_def emit_def ex_state_def ex_new_def ex_old_def)
  also have "\<dots> = (Returned True, ex_state\<lparr>store := [ex_new],
        calls := [GetContext, GetContext, GetContext, Fetch ''/api/chats/get'',
                  IdbGetAll ''char_0_chat1'', IdbPut (''char_0_chat1'', 200), IdbGetAllKeys,
                  IdbDelete (''char_1_other'', 100)]\<rparr>)"
    apply (simp add: saveAndCleanup_def saveBackupToDB_def emit_def Let_def ex_world_def ex_state_def
             ex_put ex_keys)
    apply (simp add: cleanupOldBackups_def getAllBackupKeys_def emit_def Let_def ex_settings_def ex_keys)
    apply (simp add: deleteBackup_def idb_delete_def emit_def ex_keys)
    apply (simp add: ex_new_def)
    done
  finally show ?thesis .
qed

lemma ex_like:
  assumes "getContext w = ex_context" "characters w = [ex_character]"
  shows "getCurrentChatKey w = Some ''char_0_chat1''"
    and "chat (getContext w) = Some [JObj [(''mes'', JStr ''hi'')]]"
    and "\<not> chatIsEmpty (getContext w)"
    and "getCurrentChatInfo w =
      \<lparr>ci_entityName = ''Ann'', ci_chatName = ''chat1'', ci_entityId = Some ''0'', ci_isGroup = False\<rparr>"
    and "previewOf (JObj [(''mes'', JStr ''hi'')]) = Inr ''hi''"
  by (simp_all add: getCurrentChatKey_def getCurrentChatInfo_def assms ex_context_def ex_character_def
        template_def str_or_def character_at_def chatIsEmpty_def previewOf_def)

lemma ex_offline_core:
  "executeBackupLogic_Core cs ex_world_offline s =
     (Threw FetchRejected, emit [GetContext, GetContext, GetContext, Fetch ''/api/chats/get''] s)"
proof -
  have c: "getContext ex_world_offline = ex_context" "characters ex_world_offline = [ex_character]"
    by (simp_all add: ex_world_offline_def ex_world_def)
  have f: "fetchRawChatData ex_world_offline
      \<lparr>ci_entityName = ''Ann'', ci_chatName = ''chat1'', ci_entityId = Some ''0'', ci_isGroup = False\<rparr>
      = (Inl FetchRejected, [Fetch ''/api/chats/get''])"
    by (simp add: fetchRawChatData_def c ex_context_def character_at_def)
       (simp add: ex_world_offline_def ex_world_def)
  show ?thesis
    by (simp add: Core_active[OF ex_like(1)[OF c] ex_like(2)[OF c]] ex_like(4,5)[OF c] f)
qed

lemma ex_other_key: "getCurrentChatKey ex_world_other = Some ''char_1_other''"
  by (simp add: getCurrentChatKey_def ex_world_other_def ex_world_def ex_context_other_def template_def)

lemma ex_delays: "delayOf ex_world = Some 1000" "delayOf ex_world_other = Some 1000"
  by (simp_all add: delayOf_def ex_world_other_def ex_world_def ex_settings_def)

lemma ex_restore_fails:
  "fst (restoreBackup ex_restore_world ex_old ex_state) = Returned False"
  by (simp add: restoreBackup_def restoreSteps_def switchToTarget_def findCharacter_def Let_def
        ex_restore_world_def ex_old_def ex_context_def ex_character_def template_def)

lemma ex_missing_file_core:
  "executeBackupLogic_Core cs ex_world_missing_file s =
     (Threw TypeError, emit [GetContext, GetContext, GetContext, Fetch ''/api/chats/get''] s)"
proof -
  have c: "getContext ex_world_missing_file = ex_context" "characters ex_world_missing_file = [ex_character]"
    by (simp_all add: ex_world_missing_file_def ex_world_def)
  have v: "validateRawChatData c' (JObj []) = Inl TypeError" for c'
    by (rule validate_object_without_index) simp_all
  have fw: "fetched ex_world_missing_file = Body (JObj [])"
    by (simp add: ex_world_missing_file_def)
  have f: "fetchRawChatData ex_world_missing_file
      \<lparr>ci_entityName = ''Ann'', ci_chatName = ''chat1'', ci_entityId = Some ''0'', ci_isGroup = False\<rparr>
      = (Inl TypeError, [Fetch ''/api/chats/get''])"
    by (simp add: fetchRawChatData_def c character_at_def fw v then_do_def ex_context_def)
  show ?thesis
    by (simp add: Core_active[OF ex_like(1)[OF c] ex_like(2)[OF c]] ex_like(4,5)[OF c] f)
qed

section \<open>The claims\<close>

subsection \<open>C1: the retention bound\<close>

text \<open>
  C1, as amended. Take a backup cycle that returns \<^verbatim>\<open>true\<close>, so that it stored its
  candidate snapshot and reached the retention step, and whose listing of the keys
  (\<^verbatim>\<open>getAllBackupKeys\<close>) completes; let \<^verbatim>\<open>maxTotalBackups\<close> be at least zero (the
  settings keep it at least one) and the keys of the store be distinct. Let \<open>pre\<close> be the
  store once the candidate \<open>b\<close> is stored. Then after the cycle \<^verbatim>\<open>getAllBackupKeys\<close>
  returns at most \<^verbatim>\<open>maxTotalBackups\<close> keys; the surviving snapshots are
  \<open>min (count, maxTotalBackups)\<close> snapshots of \<open>pre\<close>, namely those whose keys are not
  among the oldest \<open>count - maxTotalBackups\<close> keys in ascending order of timestamp, whatever
  chat they belong to; and every deleted snapshot is at most as recent as every surviving
  one.
\<close>

theorem retention_keeps_most_recent:
  assumes core: "executeBackupLogic_Core settings w s = (Returned True, s')"
    and keys: "idbGetAllKeys w = Completes"
    and N: "0 \<le> maxTotalBackups settings"
    and d: "distinct (map key_of (store s))"
  shows "\<exists>b pre. timestamp b = now w \<and> Some (chatKey b) = getCurrentChatKey w
      \<and> (pre = idb_put b (store s)
           \<or> (\<exists>e\<in>set (store s). chatKey e = chatKey b \<and> lastMessageId e = lastMessageId b
                 \<and> timestamp e < timestamp b \<and> pre = idb_put b (idb_delete (key_of e) (store s))))
      \<and> getAllBackupKeys Completes (store s') = Returned (map key_of (store s'))
      \<and> int (length (map key_of (store s'))) \<le> maxTotalBackups settings
      \<and> length (store s') = min (length pre) (nat (maxTotalBackups settings))
      \<and> store s' = filter (\<lambda>x. key_of x \<notin> set (oldestKeys (maxTotalBackups settings) pre)) pre
      \<and> (\<forall>x\<in>set pre. \<forall>y\<in>set (store s'). x \<notin> set (store s') \<longrightarrow> timestamp x \<le> timestamp y)"
proof -
  let ?N = "maxTotalBackups settings"
  from Core_cases[OF core] obtain b s2 where
    b: "timestamp b = now w" "Some (chatKey b) = getCurrentChatKey w"
    and s2: "store s2 = store s" and sb: "storeBackup settings w b s2 = (Returned True, s')"
    by auto
  from storeBackup_cases[OF sb] obtain t where
    t: "store t = store s2
        \<or> (\<exists>e\<in>set (store s2). chatKey e = chatKey b \<and> lastMessageId e = lastMessageId b
              \<and> timestamp e < timestamp b \<and> store t = idb_delete (key_of e) (store s2))"
    and sc: "saveAndCleanup settings w b t = (Returned True, s')"
    by auto
  define pre where "pre = idb_put b (store t)"
  have fin: "store s' = filter (\<lambda>x. key_of x \<notin> set (oldestKeys ?N pre)) pre"
    using saveAndCleanup_True[OF sc keys] by (simp add: pre_def)
  have dt: "distinct (map key_of (store t))"
    using t d s2 by (auto simp: idb_delete_def distinct_map_filter)
  have dp: "distinct (map key_of pre)"
    unfolding pre_def using dt by (rule distinct_idb_put)
  have len: "length (store s') = min (length pre) (nat ?N)"
    unfolding fin using dp N by (rule retention_count)
  have ord: "timestamp x \<le> timestamp y" if "x \<in> set pre" "y \<in> set (store s')" "x \<notin> set (store s')" for x y
  proof -
    from that(1,3) have "key_of x \<in> set (oldestKeys ?N pre)" by (simp add: fin)
    moreover from that(2) have "y \<in> set pre" "key_of y \<notin> set (oldestKeys ?N pre)" by (simp_all add: fin)
    ultimately show ?thesis using that(1) by (intro retention_order[of x pre ?N y])
  qed
  have shape: "pre = idb_put b (store s)
           \<or> (\<exists>e\<in>set (store s). chatKey e = chatKey b \<and> lastMessageId e = lastMessageId b
                 \<and> timestamp e < timestamp b \<and> pre = idb_put b (idb_delete (key_of e) (store s)))"
    using t s2 by (auto simp: pre_def)
  have bound: "int (length (map key_of (store s'))) \<le> ?N" using len N by simp
  have "getAllBackupKeys Completes (store s') = Returned (map key_of (store s'))"
    by (simp add: getAllBackupKeys_def)
  with b shape bound len fin ord show ?thesis by blast
qed

theorem retention_keeps_most_recent_witness:
  "executeBackupLogic_Core ex_settings ex_world ex_state
     = (Returned True, snd (executeBackupLogic_Core ex_settings ex_world ex_state))
   \<and> idbGetAllKeys ex_world = Completes
   \<and> 0 \<le> maxTotalBackups ex_settings
   \<and> distinct (map key_of (store ex_state))
   \<and> int (length (map key_of (store (snd (executeBackupLogic_Core ex_settings ex_world ex_state)))))
       \<le> maxTotalBackups ex_settings
   \<and> map key_of (store (snd (executeBackupLogic_Core ex_settings ex_world ex_state))) = [(''char_0_chat1'', 200)]"
proof -
  have run: "executeBackupLogic_Core ex_settings ex_world ex_state
     = (Returned True, snd (executeBackupLogic_Core ex_settings ex_world ex_state))"
    by (simp add: ex_run)
  have k: "idbGetAllKeys ex_world = Completes" by (simp add: ex_world_def)
  have N: "0 \<le> maxTotalBackups ex_settings" by (simp add: ex_settings_def)
  have d: "distinct (map key_of (store ex_state))" by (simp add: ex_state_def)
  from retention_keeps_most_recent[OF run k N d]
  have "int (length (map key_of (store (snd (executeBackupLogic_Core ex_settings ex_world ex_state)))))
       \<le> maxTotalBackups ex_settings" by blast
  moreover have "map key_of (store (snd (executeBackupLogic_Core ex_settings ex_world ex_state))) = [(''char_0_chat1'', 200)]"
    unfolding ex_run by (simp add: ex_keys)
  ultimately show ?thesis using run k N d by blast
qed

text \<open>
  The claim as stated, for every cycle that returns \<^verbatim>\<open>true\<close>, fails when the
  transaction of \<^verbatim>\<open>getAllBackupKeys\<close> fails: the function then returns the empty list,
  the cycle deletes nothing and still returns \<^verbatim>\<open>true\<close>, and the store holds two keys
  although the maximum is one.
\<close>

lemma ex_keys_fail_run:
  "executeBackupLogic_Core ex_settings ex_world_keys_fail ex_state =
     (Returned True, ex_state\<lparr>store := [ex_new, ex_old],
        calls := [GetContext, GetContext, GetContext, Fetch ''/api/chats/get'',
                  IdbGetAll ''char_0_chat1'', IdbPut (''char_0_chat1'', 200), IdbGetAllKeys]\<rparr>)"
proof -
  have "executeBackupLogic_Core ex_settings ex_world_keys_fail ex_state =
     storeBackup ex_settings ex_world_keys_fail ex_new
       (emit [GetContext, GetContext, GetContext, Fetch ''/api/chats/get''] ex_state)"
    by (rule ex_core_store) (simp_all add: ex_world_keys_fail_def ex_world_def)
  also have "\<dots> = saveAndCleanup ex_settings ex_world_keys_fail ex_new
       (emit [IdbGetAll (chatKey ex_new)] (emit [GetContext, GetContext, GetContext, Fetch ''/api/chats/get''] ex_state))"
    by (rule storeBackup_fresh) (simp_all add: ex_world_keys_fail_def ex_world_def emit_def ex_state_def ex_new_def ex_old_def)
  also have "\<dots> = (Returned True, ex_state\<lparr>store := [ex_new, ex_old],
        calls := [GetContext, GetContext, GetContext, Fetch ''/api/chats/get'',
                  IdbGetAll ''char_0_chat1'', IdbPut (''char_0_chat1'', 200), IdbGetAllKeys]\<rparr>)"
    apply (simp add: saveAndCleanup_def saveBackupToDB_def emit_def Let_def ex_world_keys_fail_def
             ex_world_def ex_state_def ex_put ex_keys)
    apply (simp add: cleanupOldBackups_def getAllBackupKeys_def emit_def Let_def)
    apply (simp add: ex_new_def)
    done
  finally show ?thesis .
qed

theorem retention_skipped_when_key_listing_fails:
  "fst (executeBackupLogic_Core ex_settings ex_world_keys_fail ex_state) = Returned True
   \<and> getAllBackupKeys Completes (store (snd (executeBackupLogic_Core ex_settings ex_world_keys_fail ex_state)))
       = Returned [(''char_0_chat1'', 200), (''char_1_other'', 100)]
   \<and> maxTotalBackups ex_settings = 1
   \<and> \<not> int (length [(''char_0_chat1'', 200 :: int), (''char_1_other'', 100)]) \<le> maxTotalBackups ex_settings"
  unfolding ex_keys_fail_run
  by (simp add: getAllBackupKeys_def ex_keys ex_settings_def)

subsection \<open>C2: a snapshot at the index of a stored one\<close>

lemma ex_stale_found:
  "find (\<lambda>x. lastMessageId x = int (length [JObj [(''mes'', JStr ''hi'')]]) - 1)
     (filter (\<lambda>x. chatKey x = ''char_0_chat1'') (store ex_state_stale)) = Some ex_stale"
  by (simp add: ex_state_stale_def ex_state_def ex_stale_def)

lemma ex_stale_key: "key_of ex_stale = (''char_0_chat1'', 100)"
  by (simp add: key_of_def ex_stale_def)

lemma ex_stale_run:
  "executeBackupLogic_Core ex_settings_two ex_world ex_state_stale =
     (Returned True, ex_state\<lparr>store := [ex_new],
        calls := [GetContext, GetContext, GetContext, Fetch ''/api/chats/get'',
                  IdbGetAll ''char_0_chat1'', IdbDelete (''char_0_chat1'', 100),
                  IdbPut (''char_0_chat1'', 200), IdbGetAllKeys]\<rparr>)"
proof -
  have "executeBackupLogic_Core ex_settings_two ex_world ex_state_stale =
     storeBackup ex_settings_two ex_world ex_new
       (emit [GetContext, GetContext, GetContext, Fetch ''/api/chats/get''] ex_state_stale)"
    by (rule ex_core_store) (simp_all add: ex_world_def)
  also have "\<dots> = (Returned True, ex_state\<lparr>store := [ex_new],
        calls := [GetContext, GetContext, GetContext, Fetch ''/api/chats/get'',
                  IdbGetAll ''char_0_chat1'', IdbDelete (''char_0_chat1'', 100),
                  IdbPut (''char_0_chat1'', 200), IdbGetAllKeys]\<rparr>)"
    apply (simp add: storeBackup_def getBackupsForChat_def deleteBackup_def emit_def Let_def ex_world_def
             ex_state_stale_def ex_state_def)
    apply (simp add: ex_new_def ex_stale_def idb_delete_def key_of_def)
    apply (simp add: saveAndCleanup_def saveBackupToDB_def emit_def Let_def idb_put_def key_of_def
             cleanupOldBackups_def getAllBackupKeys_def ex_settings_two_def)
    done
  finally show ?thesis .
qed

lemma ex_core_store_at:
  assumes "getContext w = ex_context" "characters w = [ex_character]"
    and "fetched w = Body (JArr [JObj [(''chat_metadata'', JObj [(''x'', JNum 1)])], JObj [(''mes'', JStr ''hi'')]])"
  shows "executeBackupLogic_Core settings w s =
     storeBackup settings w (ex_new\<lparr>timestamp := now w\<rparr>)
       (emit [GetContext, GetContext, GetContext, Fetch ''/api/chats/get''] s)"
proof -
  have k: "getCurrentChatKey w = Some ''char_0_chat1''"
    by (simp add: getCurrentChatKey_def assms ex_context_def template_def)
  have c: "chat (getContext w) = Some [JObj [(''mes'', JStr ''hi'')]]"
    by (simp add: assms ex_context_def)
  have i: "getCurrentChatInfo w =
      \<lparr>ci_entityName = ''Ann'', ci_chatName = ''chat1'', ci_entityId = Some ''0'', ci_isGroup = False\<rparr>"
    by (simp add: getCurrentChatInfo_def assms ex_context_def ex_character_def template_def str_or_def
          character_at_def)
  have f: "fetchRawChatData w
      \<lparr>ci_entityName = ''Ann'', ci_chatName = ''chat1'', ci_entityId = Some ''0'', ci_isGroup = False\<rparr>
      = (Inr (JArr [JObj [(''chat_metadata'', JObj [(''x'', JNum 1)])], JObj [(''mes'', JStr ''hi'')]], None),
         [Fetch ''/api/chats/get''])"
    by (simp add: fetchRawChatData_def assms ex_context_def ex_character_def character_at_def
          validateRawChatData_def malformed_def then_do_def)
  show ?thesis
    by (simp add: Core_active[OF k c] i f previewOf_def buildBackup_def ex_new_def assms)
qed

lemma ex_again_run:
  "executeBackupLogic_Core ex_settings ex_world_later (snd (executeBackupLogic_Core ex_settings ex_world ex_state)) =
     (Returned True, ex_state\<lparr>store := [ex_newer],
        calls := [GetContext, GetContext, GetContext, Fetch ''/api/chats/get'',
                  IdbGetAll ''char_0_chat1'', IdbPut (''char_0_chat1'', 200), IdbGetAllKeys,
                  IdbDelete (''char_1_other'', 100),
                  GetContext, GetContext, GetContext, Fetch ''/api/chats/get'',
                  IdbGetAll ''char_0_chat1'', IdbDelete (''char_0_chat1'', 200),
                  IdbPut (''char_0_chat1'', 300), IdbGetAllKeys]\<rparr>)"
proof -
  let ?s = "snd (executeBackupLogic_Core ex_settings ex_world ex_state)"
  have "executeBackupLogic_Core ex_settings ex_world_later ?s =
     storeBackup ex_settings ex_world_later (ex_new\<lparr>timestamp := now ex_world_later\<rparr>)
       (emit [GetContext, GetContext, GetContext, Fetch ''/api/chats/get''] ?s)"
    by (rule ex_core_store_at) (simp_all add: ex_world_later_def ex_world_def)
  also have "\<dots> = (Returned True, ex_state\<lparr>store := [ex_newer],
        calls := [GetContext, GetContext, GetContext, Fetch ''/api/chats/get'',
                  IdbGetAll ''char_0_chat1'', IdbPut (''char_0_chat1'', 200), IdbGetAllKeys,
                  IdbDelete (''char_1_other'', 100),
                  GetContext, GetContext, GetContext, Fetch ''/api/chats/get'',
                  IdbGetAll ''char_0_chat1'', IdbDelete (''char_0_chat1'', 200),
                  IdbPut (''char_0_chat1'', 300), IdbGetAllKeys]\<rparr>)"
    unfolding ex_run
    apply (simp add: storeBackup_def getBackupsForChat_def deleteBackup_def emit_def Let_def
             ex_world_later_def ex_world_def ex_state_def)
    apply (simp add: ex_new_def idb_delete_def key_of_def)
    apply (simp add: saveAndCleanup_def saveBackupToDB_def emit_def Let_def idb_put_def key_of_def
             cleanupOldBackups_def getAllBackupKeys_def ex_settings_def ex_newer_def ex_new_def)
    done
  finally show ?thesis .
qed

lemma ex_same_run:
  "executeBackupLogic_Core ex_settings ex_world (snd (executeBackupLogic_Core ex_settings ex_world ex_state)) =
     (Returned False, ex_state\<lparr>store := [ex_new],
        calls := [GetContext, GetContext, GetContext, Fetch ''/api/chats/get'',
                  IdbGetAll ''char_0_chat1'', IdbPut (''char_0_chat1'', 200), IdbGetAllKeys,
                  IdbDelete (''char_1_other'', 100),
                  GetContext, GetContext, GetContext, Fetch ''/api/chats/get'',
                  IdbGetAll ''char_0_chat1'']\<rparr>)"
proof -
  let ?s = "snd (executeBackupLogic_Core ex_settings ex_world ex_state)"
  have "executeBackupLogic_Core ex_settings ex_world ?s =
     storeBackup ex_settings ex_world ex_new
       (emit [GetContext, GetContext, GetContext, Fetch ''/api/chats/get''] ?s)"
    by (rule ex_core_store) (simp_all add: ex_world_def)
  also have "\<dots> = (Returned False, ex_state\<lparr>store := [ex_new],
        calls := [GetContext, GetContext, GetContext, Fetch ''/api/chats/get'',
                  IdbGetAll ''char_0_chat1'', IdbPut (''char_0_chat1'', 200), IdbGetAllKeys,
                  IdbDelete (''char_1_other'', 100),
                  GetContext, GetContext, GetContext, Fetch ''/api/chats/get'',
                  IdbGetAll ''char_0_chat1'']\<rparr>)"
    unfolding ex_run
    apply (simp add: storeBackup_def getBackupsForChat_def deleteBackup_def emit_def Let_def
             ex_world_def ex_state_def)
    apply (simp add: ex_new_def)
    done
  finally show ?thesis .
qed


lemma ex_once_found:
  "find (\<lambda>x. lastMessageId x = int (length [JObj [(''mes'', JStr ''hi'')]]) - 1)
     (filter (\<lambda>x. chatKey x = ''char_0_chat1'')
        (store (snd (executeBackupLogic_Core ex_settings ex_world ex_state)))) = Some ex_new"
  unfolding ex_run by (simp add: ex_new_def)

text \<open>
  C2, as amended. Take a backup cycle whose IndexedDB requests all complete and which
  builds its candidate (the chat has the key \<open>ck\<close> and the messages \<open>ms\<close>, and the cycle
  returns), and let \<open>e\<close> be the stored snapshot of the same chat whose
  \<^verbatim>\<open>lastMessageId\<close> is that of the candidate (the one \<^verbatim>\<open>findIndex\<close> finds).
  \<^item> If \<open>e\<close> is strictly older than the candidate, the cycle returns \<^verbatim>\<open>true\<close>, the
    key of \<open>e\<close> is gone, and the store is the store without \<open>e\<close> and with the candidate,
    after the retention sweep; when the store held at most \<^verbatim>\<open>maxTotalBackups\<close>
    snapshots the sweep deletes nothing and the candidate is in the store.
  \<^item> Otherwise the cycle returns \<^verbatim>\<open>false\<close> and the store is unchanged.
  \<^item> Consequently, when \<open>e\<close> is the only stored snapshot of the chat at that index and
    the store holds at most \<^verbatim>\<open>maxTotalBackups\<close> snapshots, the store holds exactly one
    snapshot of the chat at that index afterwards, dated with the later of the two
    timestamps.
  \<^item> In particular, let this cycle be the second of two backups of the chat at the same
    index: the first one, not later than this one, ran with completed requests on a store
    with distinct keys whose snapshots were all older than it and which held at most one
    snapshot of the chat at that index, and \<^verbatim>\<open>maxTotalBackups\<close> is at least one. Then
    the store holds exactly one snapshot of the chat at that index after this cycle, dated
    with the time of this cycle.
\<close>

theorem dedup_same_index:
  assumes ok: "idb_completes w"
    and key: "getCurrentChatKey w = Some ck"
    and msgs: "chat (getContext w) = Some ms" "ms \<noteq> []"
    and stored: "find (\<lambda>x. lastMessageId x = int (length ms) - 1)
                   (filter (\<lambda>x. chatKey x = ck) (store s)) = Some e"
    and core: "executeBackupLogic_Core settings w s = (Returned r, s')"
  shows "(timestamp e < now w \<longrightarrow>
            r \<and> key_of e \<notin> key_of ` set (store s')
            \<and> (\<exists>b. key_of b = (ck, now w) \<and> lastMessageId b = int (length ms) - 1
                  \<and> store s' = filter (\<lambda>x. key_of x \<notin> set (oldestKeys (maxTotalBackups settings)
                                     (idb_put b (idb_delete (key_of e) (store s)))))
                                 (idb_put b (idb_delete (key_of e) (store s)))
                  \<and> (int (length (store s)) \<le> maxTotalBackups settings \<longrightarrow>
                        b \<in> set (store s') \<and> store s' = idb_put b (idb_delete (key_of e) (store s)))))
       \<and> (now w \<le> timestamp e \<longrightarrow> \<not> r \<and> store s' = store s)
       \<and> (sameIndex ck (int (length ms) - 1) (store s) = [e]
            \<and> int (length (store s)) \<le> maxTotalBackups settings \<longrightarrow>
            (\<exists>b. sameIndex ck (int (length ms) - 1) (store s') = [b]
                 \<and> timestamp b = max (timestamp e) (now w)))
       \<and> (\<forall>w0 s0 ms0 r0.
            idb_completes w0 \<and> getCurrentChatKey w0 = Some ck
            \<and> chat (getContext w0) = Some ms0 \<and> length ms0 = length ms
            \<and> executeBackupLogic_Core settings w0 s0 = (Returned r0, s)
            \<and> (\<forall>x\<in>set (store s0). timestamp x < now w0) \<and> now w0 \<le> now w
            \<and> 1 \<le> maxTotalBackups settings
            \<and> distinct (map key_of (store s0))
            \<and> length (sameIndex ck (int (length ms) - 1) (store s0)) \<le> 1 \<longrightarrow>
            (\<exists>b. sameIndex ck (int (length ms) - 1) (store s') = [b] \<and> timestamp b = now w))"
proof -
  note one = same_index_cycle[OF ok key msgs stored core]
  have two: "\<forall>w0 s0 ms0 r0.
            idb_completes w0 \<and> getCurrentChatKey w0 = Some ck
            \<and> chat (getContext w0) = Some ms0 \<and> length ms0 = length ms
            \<and> executeBackupLogic_Core settings w0 s0 = (Returned r0, s)
            \<and> (\<forall>x\<in>set (store s0). timestamp x < now w0) \<and> now w0 \<le> now w
            \<and> 1 \<le> maxTotalBackups settings
            \<and> distinct (map key_of (store s0))
            \<and> length (sameIndex ck (int (length ms) - 1) (store s0)) \<le> 1 \<longrightarrow>
            (\<exists>b. sameIndex ck (int (length ms) - 1) (store s') = [b] \<and> timestamp b = now w)"
  proof (intro allI impI, elim conjE)
    fix w0 s0 ms0 r0
    assume a: "idb_completes w0" "getCurrentChatKey w0 = Some ck"
      "chat (getContext w0) = Some ms0" "length ms0 = length ms"
      "executeBackupLogic_Core settings w0 s0 = (Returned r0, s)"
      "\<forall>x\<in>set (store s0). timestamp x < now w0" "now w0 \<le> now w"
      "1 \<le> maxTotalBackups settings" "distinct (map key_of (store s0))"
      "length (sameIndex ck (int (length ms) - 1) (store s0)) \<le> 1"
    from a(4) msgs(2) have ne: "ms0 \<noteq> []" by auto
    from a(4) have l: "length ms = length ms0" by simp
    from backup_twice_leaves_one[OF a(1) ok a(2) key a(3) ne msgs(1) l a(5) core a(6,7,8) a(9)] a(10) a(4)
    show "\<exists>b. sameIndex ck (int (length ms) - 1) (store s') = [b] \<and> timestamp b = now w"
      by simp
  qed
  from one two show ?thesis by (intro conjI) (elim conjE, assumption)+
qed

theorem dedup_same_index_witness:
  "idb_completes ex_world
   \<and> getCurrentChatKey ex_world = Some ''char_0_chat1''
   \<and> chat (getContext ex_world) = Some [JObj [(''mes'', JStr ''hi'')]]
   \<and> find (\<lambda>x. lastMessageId x = int (length [JObj [(''mes'', JStr ''hi'')]]) - 1)
        (filter (\<lambda>x. chatKey x = ''char_0_chat1'') (store ex_state_stale)) = Some ex_stale
   \<and> fst (executeBackupLogic_Core ex_settings_two ex_world ex_state_stale) = Returned True
   \<and> timestamp ex_stale < now ex_world
   \<and> key_of ex_stale \<notin> key_of ` set (store (snd (executeBackupLogic_Core ex_settings_two ex_world ex_state_stale)))
   \<and> store (snd (executeBackupLogic_Core ex_settings_two ex_world ex_state_stale)) = [ex_new]
   \<and> idb_completes ex_world_later
   \<and> getCurrentChatKey ex_world_later = Some ''char_0_chat1''
   \<and> chat (getContext ex_world_later) = Some [JObj [(''mes'', JStr ''hi'')]]
   \<and> fst (executeBackupLogic_Core ex_settings ex_world ex_state) = Returned True
   \<and> store ex_state = [ex_old] \<and> timestamp ex_old < now ex_world
   \<and> now ex_world \<le> now ex_world_later
   \<and> 1 \<le> maxTotalBackups ex_settings
   \<and> sameIndex ''char_0_chat1'' 0 (store ex_state) = []
   \<and> find (\<lambda>x. lastMessageId x = int (length [JObj [(''mes'', JStr ''hi'')]]) - 1)
        (filter (\<lambda>x. chatKey x = ''char_0_chat1'')
           (store (snd (executeBackupLogic_Core ex_settings ex_world ex_state)))) = Some ex_new
   \<and> fst (executeBackupLogic_Core ex_settings ex_world_later
             (snd (executeBackupLogic_Core ex_settings ex_world ex_state))) = Returned True
   \<and> length (sameIndex ''char_0_chat1'' 0
        (store (snd (executeBackupLogic_Core ex_settings ex_world_later
           (snd (executeBackupLogic_Core ex_settings ex_world ex_state)))))) = 1
   \<and> store (snd (executeBackupLogic_Core ex_settings ex_world_later
        (snd (executeBackupLogic_Core ex_settings ex_world ex_state)))) = [ex_newer]
   \<and> timestamp ex_newer = now ex_world_later
   \<and> now ex_world \<le> timestamp ex_new
   \<and> fst (executeBackupLogic_Core ex_settings ex_world
             (snd (executeBackupLogic_Core ex_settings ex_world ex_state))) = Returned False
   \<and> store (snd (executeBackupLogic_Core ex_settings ex_world
        (snd (executeBackupLogic_Core ex_settings ex_world ex_state)))) = [ex_new]"
proof -
  let ?ms = "[JObj [(''mes'', JStr ''hi'')]]"
  let ?s1 = "snd (executeBackupLogic_Core ex_settings ex_world ex_state)"
  let ?s2 = "snd (executeBackupLogic_Core ex_settings ex_world_later ?s1)"
  let ?s3 = "snd (executeBackupLogic_Core ex_settings ex_world ?s1)"
  have ok: "idb_completes ex_world" by (simp add: idb_completes_def ex_world_def)
  have key: "getCurrentChatKey ex_world = Some ''char_0_chat1''"
    by (simp add: getCurrentChatKey_def ex_world_def ex_context_def template_def)
  have msgs: "chat (getContext ex_world) = Some ?ms" "?ms \<noteq> []"
    by (simp_all add: ex_world_def ex_context_def)
  have core: "executeBackupLogic_Core ex_settings_two ex_world ex_state_stale
       = (Returned True, snd (executeBackupLogic_Core ex_settings_two ex_world ex_state_stale))"
    by (simp add: ex_stale_run)
  have lt: "timestamp ex_stale < now ex_world" by (simp add: ex_stale_def ex_world_def)
  from dedup_same_index[OF ok key msgs ex_stale_found core] lt
  have a1: "key_of ex_stale \<notin> key_of ` set (store (snd (executeBackupLogic_Core ex_settings_two ex_world ex_state_stale)))"
    by blast
  have a2: "store (snd (executeBackupLogic_Core ex_settings_two ex_world ex_state_stale)) = [ex_new]"
    by (simp add: ex_stale_run)
  have a3: "fst (executeBackupLogic_Core ex_settings_two ex_world ex_state_stale) = Returned True"
    by (simp add: ex_stale_run)
  have ok': "idb_completes ex_world_later" by (simp add: idb_completes_def ex_world_later_def ex_world_def)
  have key': "getCurrentChatKey ex_world_later = Some ''char_0_chat1''"
    by (simp add: getCurrentChatKey_def ex_world_later_def ex_world_def ex_context_def template_def)
  have msgs': "chat (getContext ex_world_later) = Some ?ms"
    by (simp add: ex_world_later_def ex_world_def ex_context_def)
  have first: "executeBackupLogic_Core ex_settings ex_world ex_state = (Returned True, ?s1)"
    by (simp add: ex_run)
  have second: "executeBackupLogic_Core ex_settings ex_world_later ?s1 = (Returned True, ?s2)"
    by (simp add: ex_again_run)
  have again: "executeBackupLogic_Core ex_settings ex_world ?s1 = (Returned False, ?s3)"
    by (simp add: ex_same_run)
  have st: "store ex_state = [ex_old]" by (simp add: ex_state_def)
  have old: "timestamp ex_old < now ex_world" by (simp add: ex_old_def ex_world_def)
  have clock: "now ex_world \<le> now ex_world_later" by (simp add: ex_world_later_def ex_world_def)
  have N: "1 \<le> maxTotalBackups ex_settings" by (simp add: ex_settings_def)
  have none: "sameIndex ''char_0_chat1'' 0 (store ex_state) = []"
    by (simp add: sameIndex_def ex_state_def ex_old_def)
  have d: "distinct (map key_of (store ex_state))" by (simp add: st)
  have idx: "int (length ?ms) - 1 = 0" by simp
  note inst = dedup_same_index[OF ok' key' msgs' msgs(2) ex_once_found second]
  from inst have "\<forall>w0 s0 ms0 r0.
            idb_completes w0 \<and> getCurrentChatKey w0 = Some ''char_0_chat1''
            \<and> chat (getContext w0) = Some ms0 \<and> length ms0 = length ?ms
            \<and> executeBackupLogic_Core ex_settings w0 s0 = (Returned r0, ?s1)
            \<and> (\<forall>x\<in>set (store s0). timestamp x < now w0) \<and> now w0 \<le> now ex_world_later
            \<and> 1 \<le> maxTotalBackups ex_settings
            \<and> distinct (map key_of (store s0))
            \<and> length (sameIndex ''char_0_chat1'' (int (length ?ms) - 1) (store s0)) \<le> 1 \<longrightarrow>
            (\<exists>b. sameIndex ''char_0_chat1'' (int (length ?ms) - 1) (store ?s2) = [b]
                 \<and> timestamp b = now ex_world_later)"
    by (elim conjE)
  from this[rule_format, where ?w0.0 = ex_world and ?s0.0 = ex_state
      and ?ms0.0 = "[JObj [(''mes'', JStr ''hi'')]]" and ?r0.0 = True] ok key msgs(1) first st old clock N d none
  have "\<exists>b. sameIndex ''char_0_chat1'' (int (length ?ms) - 1) (store ?s2) = [b]
                 \<and> timestamp b = now ex_world_later"
    by simp
  then have b1: "length (sameIndex ''char_0_chat1'' 0 (store ?s2)) = 1"
    by auto
  have b2: "store ?s2 = [ex_newer]" by (simp add: ex_again_run)
  have b3: "timestamp ex_newer = now ex_world_later" by (simp add: ex_newer_def ex_world_later_def)
  have b4: "fst (executeBackupLogic_Core ex_settings ex_world_later ?s1) = Returned True"
    by (simp add: ex_again_run)
  have b5: "fst (executeBackupLogic_Core ex_settings ex_world ex_state) = Returned True"
    by (simp add: ex_run)
  have ge: "now ex_world \<le> timestamp ex_new" by (simp add: ex_new_def ex_world_def)
  have s1: "store ?s1 = [ex_new]" by (simp add: ex_run)
  from dedup_same_index[OF ok key msgs ex_once_found again] ge
  have "store ?s3 = store ?s1" by blast
  with s1 have c1: "store ?s3 = [ex_new]" by simp
  have c2: "fst (executeBackupLogic_Core ex_settings ex_world ?s1) = Returned False"
    by (simp add: ex_same_run)
  show ?thesis
    by (intro conjI)
       (rule ok key msgs(1) ex_stale_found a3 lt a1 a2 ok' key' msgs' b5 st old clock N none
          ex_once_found b4 b1 b2 b3 ge c2 c1)+
qed

text \<open>
  The claim as stated, for every cycle, fails when the transaction of
  \<^verbatim>\<open>getBackupsForChat\<close> fails: the function then returns the empty list, the older
  snapshot at the same index is not found and not deleted, the candidate is stored next
  to it, and the cycle returns \<^verbatim>\<open>true\<close>.
\<close>

lemma ex_read_fails_run:
  "executeBackupLogic_Core ex_settings_two ex_world_read_fails ex_state_stale =
     (Returned True, ex_state\<lparr>store := [ex_stale, ex_new],
        calls := [GetContext, GetContext, GetContext, Fetch ''/api/chats/get'',
                  IdbGetAll ''char_0_chat1'', IdbPut (''char_0_chat1'', 200), IdbGetAllKeys]\<rparr>)"
proof -
  have "executeBackupLogic_Core ex_settings_two ex_world_read_fails ex_state_stale =
     storeBackup ex_settings_two ex_world_read_fails ex_new
       (emit [GetContext, GetContext, GetContext, Fetch ''/api/chats/get''] ex_state_stale)"
    by (rule ex_core_store) (simp_all add: ex_world_read_fails_def ex_world_def)
  also have "\<dots> = (Returned True, ex_state\<lparr>store := [ex_stale, ex_new],
        calls := [GetContext, GetContext, GetContext, Fetch ''/api/chats/get'',
                  IdbGetAll ''char_0_chat1'', IdbPut (''char_0_chat1'', 200), IdbGetAllKeys]\<rparr>)"
    apply (simp add: storeBackup_def getBackupsForChat_def emit_def Let_def ex_world_read_fails_def ex_world_def
             ex_state_stale_def ex_state_def)
    apply (simp add: saveAndCleanup_def saveBackupToDB_def emit_def Let_def
             cleanupOldBackups_def getAllBackupKeys_def ex_settings_two_def)
    apply (simp add: ex_new_def ex_stale_def idb_put_def key_of_def)
    done
  finally show ?thesis .
qed

theorem stale_snapshot_kept_when_read_fails:
  "fst (executeBackupLogic_Core ex_settings_two ex_world_read_fails ex_state_stale) = Returned True
   \<and> store ex_state_stale = [ex_stale]
   \<and> chatKey ex_stale = chatKey ex_new \<and> lastMessageId ex_stale = lastMessageId ex_new
   \<and> timestamp ex_stale < timestamp ex_new
   \<and> store (snd (executeBackupLogic_Core ex_settings_two ex_world_read_fails ex_state_stale))
       = [ex_stale, ex_new]"
  unfolding ex_read_fails_run
  by (simp add: ex_state_stale_def ex_stale_def ex_new_def)

subsection \<open>C3: a trigger during a running cycle\<close>

text \<open>
  C3. Whenever \<^verbatim>\<open>performBackupConditional\<close> is invoked while
  \<^verbatim>\<open>isBackupInProgress\<close> is true, it returns at once (with \<^verbatim>\<open>undefined\<close>) and
  leaves the whole state as it was: the object store is unchanged, no request to the store
  and no call to the host is added to the record of calls, and no timer is set, so the
  trigger is dropped and not queued.
\<close>

theorem trigger_dropped_while_running:
  assumes "isBackupInProgress s"
  shows "performBackupConditional w s = (None, s)
       \<and> store (snd (performBackupConditional w s)) = store s
       \<and> calls (snd (performBackupConditional w s)) = calls s
       \<and> timers (snd (performBackupConditional w s)) = timers s"
  using assms by (simp add: performBackupConditional_def)

theorem trigger_dropped_while_running_witness:
  "isBackupInProgress ex_state_running
   \<and> performBackupConditional ex_world ex_state_running = (None, ex_state_running)
   \<and> calls (snd (performBackupConditional ex_world ex_state_running)) = []"
proof -
  have r: "isBackupInProgress ex_state_running" by (simp add: ex_state_running_def)
  from trigger_dropped_while_running[OF r, of ex_world]
  show ?thesis using r by (simp add: ex_state_running_def ex_state_def)
qed

subsection \<open>C4: the lock is released\<close>

text \<open>
  C4. Whenever \<^verbatim>\<open>performBackupConditional\<close> is invoked while no cycle is running, no
  cycle is running when it has completed. In particular, when the invocation sets the flag
  (a chat with messages is open and the settings exist), the inner cycle runs with the
  flag set, and whatever its outcome is (it returns \<^verbatim>\<open>true\<close>, it returns
  \<^verbatim>\<open>false\<close>, or it throws), the flag is cleared at the end and the invocation
  returns whether the cycle returned \<^verbatim>\<open>true\<close>.
\<close>

theorem lock_released:
  assumes idle: "\<not> isBackupInProgress s"
  shows "\<not> isBackupInProgress (snd (performBackupConditional w s))
       \<and> (\<forall>cs outcome s2.
            getCurrentChatKey w \<noteq> None \<and> \<not> chatIsEmpty (getContext w) \<and> extension_settings w = Some cs
            \<and> executeBackupLogic_Core cs w ((emit [GetContext, GetContext] s)\<lparr>isBackupInProgress := True\<rparr>)
                = (outcome, s2)
            \<longrightarrow> isBackupInProgress s2
                \<and> fst (performBackupConditional w s) = Some (outcome = Returned True)
                \<and> store (snd (performBackupConditional w s)) = store s2
                \<and> \<not> isBackupInProgress (snd (performBackupConditional w s)))"
proof -
  let ?run = "(emit [GetContext, GetContext] s)\<lparr>isBackupInProgress := True\<rparr>"
  have active: "isBackupInProgress s2
                \<and> fst (performBackupConditional w s) = Some (outcome = Returned True)
                \<and> store (snd (performBackupConditional w s)) = store s2
                \<and> \<not> isBackupInProgress (snd (performBackupConditional w s))"
    if a: "getCurrentChatKey w \<noteq> None" "\<not> chatIsEmpty (getContext w)" "extension_settings w = Some cs"
      and core: "executeBackupLogic_Core cs w ?run = (outcome, s2)"
    for cs outcome s2
  proof -
    from Core_control[of ?run cs w] core have held: "isBackupInProgress s2"
      by (simp add: same_control_def)
    from tryBackup_snd[of cs w ?run] core obtain es where
      t: "snd (tryBackup cs w ?run) = emit es s2" by auto
    note p = performBackupConditional_active[OF idle a]
    have "fst (performBackupConditional w s) = Some (outcome = Returned True)"
      using core by (simp add: p tryBackup_fst)
    moreover have "store (snd (performBackupConditional w s)) = store s2"
      unfolding p using t by (simp add: releaseLock_def emit_def)
    moreover have "\<not> isBackupInProgress (snd (performBackupConditional w s))"
      by (simp add: p releaseLock_def)
    ultimately show ?thesis using held by simp
  qed
  have "\<not> isBackupInProgress (snd (performBackupConditional w s))"
  proof (cases "getCurrentChatKey w = None \<or> chatIsEmpty (getContext w) \<or> extension_settings w = None")
    case True
    from performBackupConditional_inactive[OF idle True] idle show ?thesis by (simp add: emit_def)
  next
    case False
    then obtain cs where a: "getCurrentChatKey w \<noteq> None" "\<not> chatIsEmpty (getContext w)"
      "extension_settings w = Some cs" by auto
    obtain outcome s2 where "executeBackupLogic_Core cs w ?run = (outcome, s2)" by fastforce
    from active[OF a this] show ?thesis by simp
  qed
  with active show ?thesis by blast
qed

theorem lock_released_witness:
  "\<not> isBackupInProgress ex_state
   \<and> fst (executeBackupLogic_Core ex_settings ex_world_offline
            ((emit [GetContext, GetContext] ex_state)\<lparr>isBackupInProgress := True\<rparr>)) = Threw FetchRejected
   \<and> fst (performBackupConditional ex_world_offline ex_state) = Some False
   \<and> \<not> isBackupInProgress (snd (performBackupConditional ex_world_offline ex_state))"
proof -
  have idle: "\<not> isBackupInProgress ex_state" by (simp add: ex_state_def)
  have c: "getContext ex_world_offline = ex_context" "characters ex_world_offline = [ex_character]"
    by (simp_all add: ex_world_offline_def ex_world_def)
  have a: "getCurrentChatKey ex_world_offline \<noteq> None" "\<not> chatIsEmpty (getContext ex_world_offline)"
    "extension_settings ex_world_offline = Some ex_settings"
    using ex_like(1,3)[OF c] by (simp_all add: ex_world_offline_def ex_world_def)
  have core: "executeBackupLogic_Core ex_settings ex_world_offline
                ((emit [GetContext, GetContext] ex_state)\<lparr>isBackupInProgress := True\<rparr>)
       = (Threw FetchRejected, emit [GetContext, GetContext, GetContext, Fetch ''/api/chats/get'']
            ((emit [GetContext, GetContext] ex_state)\<lparr>isBackupInProgress := True\<rparr>))"
    by (rule ex_offline_core)
  from lock_released[OF idle, of ex_world_offline] a core
  have "fst (performBackupConditional ex_world_offline ex_state) = Some (Threw FetchRejected = Returned True)
        \<and> \<not> isBackupInProgress (snd (performBackupConditional ex_world_offline ex_state))"
    by blast
  then show ?thesis using idle core by simp
qed

subsection \<open>C5: the debounced trigger\<close>

text \<open>
  C5, as amended. Let the only timer that can be pending be the one recorded in
  \<^verbatim>\<open>backupTimeout\<close>, as every operation of the plugin leaves it.
  \<^item> A debounced trigger cancels the pending timer. When a chat key and a numeric delay
    exist at that time it starts a new timer, which captures the chat key, and that timer
    is then the only pending one; otherwise no timer is pending afterwards. Scheduling
    stores nothing.
  \<^item> When the timer fires, the chat key of that time is compared with the captured key.
    If they differ the backup is discarded without evaluation: the context is read, the
    timer handle is cleared, and nothing else changes. If they are equal
    \<^verbatim>\<open>performBackupConditional\<close> is evaluated once.
  \<^item> In particular, scheduling a trigger in chat A, switching to chat B and scheduling a
    trigger there before the first delay has elapsed leaves only the timer of B pending;
    the timer of A never fires; when the timer of B fires in chat B there is exactly one
    evaluation, no timer is pending afterwards, and every snapshot of chat A in the store
    was there before.
\<close>

theorem debounce_reschedules:
  assumes tr: "timer_tracked s"
  shows "(\<forall>k d. getCurrentChatKey w = Some k \<and> delayOf w = Some d \<longrightarrow>
            timers (performBackupDebounced w s) = [\<lparr>t_id = nextTimer s, t_scheduledChatKey = k, t_delay = d\<rparr>]
            \<and> backupTimeout (performBackupDebounced w s) = Some (nextTimer s))
       \<and> (getCurrentChatKey w = None \<or> delayOf w = None \<longrightarrow>
            timers (performBackupDebounced w s) = [] \<and> backupTimeout (performBackupDebounced w s) = None)
       \<and> store (performBackupDebounced w s) = store s
       \<and> isBackupInProgress (performBackupDebounced w s) = isBackupInProgress s
       \<and> timer_tracked (performBackupDebounced w s)
       \<and> (\<forall>t w'. timers s = [t] \<and> getCurrentChatKey w' \<noteq> Some (t_scheduledChatKey t) \<longrightarrow>
            fireTimer (t_id t) w' s = (emit [GetContext] s)\<lparr>timers := [], backupTimeout := None\<rparr>)
       \<and> (\<forall>t w'. timers s = [t] \<and> getCurrentChatKey w' = Some (t_scheduledChatKey t) \<longrightarrow>
            fireTimer (t_id t) w' s =
              (snd (performBackupConditional w' (emit [GetContext] (s\<lparr>timers := []\<rparr>))))\<lparr>backupTimeout := None\<rparr>)
       \<and> (\<forall>wA wB wF kA kB dA dB.
            getCurrentChatKey wA = Some kA \<and> delayOf wA = Some dA
            \<and> getCurrentChatKey wB = Some kB \<and> delayOf wB = Some dB
            \<and> kA \<noteq> kB \<and> getCurrentChatKey wF = Some kB \<longrightarrow>
            (let sA = performBackupDebounced wA s;
                 sB = performBackupDebounced wB sA;
                 sF = fireTimer (nextTimer sA) wF sB
             in timers sA = [\<lparr>t_id = nextTimer s, t_scheduledChatKey = kA, t_delay = dA\<rparr>]
                \<and> timers sB = [\<lparr>t_id = nextTimer sA, t_scheduledChatKey = kB, t_delay = dB\<rparr>]
                \<and> fireTimer (nextTimer s) wF sB = sB
                \<and> store sB = store s
                \<and> sF = (snd (performBackupConditional wF (emit [GetContext] (sB\<lparr>timers := []\<rparr>))))
                          \<lparr>backupTimeout := None\<rparr>
                \<and> timers sF = []
                \<and> (\<forall>x\<in>set (store sF). chatKey x = kA \<longrightarrow> x \<in> set (store s))))"
proof -
  have c1: "\<forall>k d. getCurrentChatKey w = Some k \<and> delayOf w = Some d \<longrightarrow>
            timers (performBackupDebounced w s) = [\<lparr>t_id = nextTimer s, t_scheduledChatKey = k, t_delay = d\<rparr>]
            \<and> backupTimeout (performBackupDebounced w s) = Some (nextTimer s)"
  proof (intro allI impI, elim conjE)
    fix k d assume a: "getCurrentChatKey w = Some k" "delayOf w = Some d"
    show "timers (performBackupDebounced w s) = [\<lparr>t_id = nextTimer s, t_scheduledChatKey = k, t_delay = d\<rparr>]
            \<and> backupTimeout (performBackupDebounced w s) = Some (nextTimer s)"
      by (simp add: performBackupDebounced_scheduled[OF tr a])
  qed
  have c2: "getCurrentChatKey w = None \<or> delayOf w = None \<longrightarrow>
            timers (performBackupDebounced w s) = [] \<and> backupTimeout (performBackupDebounced w s) = None"
  proof
    assume a: "getCurrentChatKey w = None \<or> delayOf w = None"
    show "timers (performBackupDebounced w s) = [] \<and> backupTimeout (performBackupDebounced w s) = None"
      by (simp add: performBackupDebounced_cancelled[OF tr a])
  qed
  have frame: "store (performBackupDebounced w s) = store s
       \<and> isBackupInProgress (performBackupDebounced w s) = isBackupInProgress s
       \<and> timer_tracked (performBackupDebounced w s)"
  proof (cases "getCurrentChatKey w = None \<or> delayOf w = None")
    case True
    from performBackupDebounced_cancelled[OF tr True] show ?thesis
      by (simp add: emit_def timer_tracked_def)
  next
    case False
    then obtain k d where "getCurrentChatKey w = Some k" "delayOf w = Some d" by auto
    from performBackupDebounced_scheduled[OF tr this] show ?thesis
      by (simp add: emit_def timer_tracked_def)
  qed
  have c3: "store (performBackupDebounced w s) = store s"
    and c4: "isBackupInProgress (performBackupDebounced w s) = isBackupInProgress s"
    and c5: "timer_tracked (performBackupDebounced w s)"
    using frame by simp_all
  have c6: "\<forall>t w'. timers s = [t] \<and> getCurrentChatKey w' \<noteq> Some (t_scheduledChatKey t) \<longrightarrow>
            fireTimer (t_id t) w' s = (emit [GetContext] s)\<lparr>timers := [], backupTimeout := None\<rparr>"
  proof (intro allI impI, elim conjE)
    fix t w' assume a: "timers s = [t]" "getCurrentChatKey w' \<noteq> Some (t_scheduledChatKey t)"
    show "fireTimer (t_id t) w' s = (emit [GetContext] s)\<lparr>timers := [], backupTimeout := None\<rparr>"
      by (simp add: fireTimer_single[OF a(1)] debouncedCallback_other[OF a(2)] emit_def)
  qed
  have c7: "\<forall>t w'. timers s = [t] \<and> getCurrentChatKey w' = Some (t_scheduledChatKey t) \<longrightarrow>
            fireTimer (t_id t) w' s =
              (snd (performBackupConditional w' (emit [GetContext] (s\<lparr>timers := []\<rparr>))))\<lparr>backupTimeout := None\<rparr>"
  proof (intro allI impI, elim conjE)
    fix t w' assume a: "timers s = [t]" "getCurrentChatKey w' = Some (t_scheduledChatKey t)"
    show "fireTimer (t_id t) w' s =
        (snd (performBackupConditional w' (emit [GetContext] (s\<lparr>timers := []\<rparr>))))\<lparr>backupTimeout := None\<rparr>"
      by (simp add: fireTimer_single[OF a(1)] debouncedCallback_same[OF a(2)])
  qed
  have c8: "\<forall>wA wB wF kA kB dA dB.
            getCurrentChatKey wA = Some kA \<and> delayOf wA = Some dA
            \<and> getCurrentChatKey wB = Some kB \<and> delayOf wB = Some dB
            \<and> kA \<noteq> kB \<and> getCurrentChatKey wF = Some kB \<longrightarrow>
            (let sA = performBackupDebounced wA s;
                 sB = performBackupDebounced wB sA;
                 sF = fireTimer (nextTimer sA) wF sB
             in timers sA = [\<lparr>t_id = nextTimer s, t_scheduledChatKey = kA, t_delay = dA\<rparr>]
                \<and> timers sB = [\<lparr>t_id = nextTimer sA, t_scheduledChatKey = kB, t_delay = dB\<rparr>]
                \<and> fireTimer (nextTimer s) wF sB = sB
                \<and> store sB = store s
                \<and> sF = (snd (performBackupConditional wF (emit [GetContext] (sB\<lparr>timers := []\<rparr>))))
                          \<lparr>backupTimeout := None\<rparr>
                \<and> timers sF = []
                \<and> (\<forall>x\<in>set (store sF). chatKey x = kA \<longrightarrow> x \<in> set (store s)))"
  proof (intro allI impI, elim conjE)
    fix wA wB wF kA kB dA dB
    assume a: "getCurrentChatKey wA = Some kA" "delayOf wA = Some dA"
      and b: "getCurrentChatKey wB = Some kB" "delayOf wB = Some dB"
      and ne: "kA \<noteq> kB" and f: "getCurrentChatKey wF = Some kB"
    let ?sA = "performBackupDebounced wA s"
    let ?sB = "performBackupDebounced wB ?sA"
    let ?sF = "fireTimer (nextTimer ?sA) wF ?sB"
    note eA = performBackupDebounced_scheduled[OF tr a]
    have tA: "timers ?sA = [\<lparr>t_id = nextTimer s, t_scheduledChatKey = kA, t_delay = dA\<rparr>]"
      and nA: "nextTimer ?sA = Suc (nextTimer s)" and stA: "store ?sA = store s"
      and hA: "backupTimeout ?sA = Some (nextTimer s)"
      by (simp_all add: eA emit_def)
    have trA: "timer_tracked ?sA" by (simp add: timer_tracked_def tA hA)
    note eB = performBackupDebounced_scheduled[OF trA b]
    have tB: "timers ?sB = [\<lparr>t_id = nextTimer ?sA, t_scheduledChatKey = kB, t_delay = dB\<rparr>]"
      by (simp add: eB)
    have stB: "store ?sB = store s"
      by (simp add: eB emit_def stA)
    have gone: "fireTimer (nextTimer s) wF ?sB = ?sB"
      by (rule fireTimer_absent) (simp add: tB nA)
    have fire: "?sF = (snd (performBackupConditional wF (emit [GetContext] (?sB\<lparr>timers := []\<rparr>))))
                   \<lparr>backupTimeout := None\<rparr>"
      using fireTimer_single[OF tB, of wF] debouncedCallback_same[OF f] by simp
    have none: "timers ?sF = []"
      unfolding fire by (simp add: performBackupConditional_control emit_def)
    have "set (store ?sF) \<subseteq> set (store s) \<union> {b. Some (chatKey b) = getCurrentChatKey wF \<and> timestamp b = now wF}"
      unfolding fire
      using performBackupConditional_store_subset[of wF "emit [GetContext] (?sB\<lparr>timers := []\<rparr>)"]
      by (simp add: emit_def stB)
    then have zero: "\<forall>x\<in>set (store ?sF). chatKey x = kA \<longrightarrow> x \<in> set (store s)"
      using f ne by auto
    show "(let sA = performBackupDebounced wA s;
                 sB = performBackupDebounced wB sA;
                 sF = fireTimer (nextTimer sA) wF sB
             in timers sA = [\<lparr>t_id = nextTimer s, t_scheduledChatKey = kA, t_delay = dA\<rparr>]
                \<and> timers sB = [\<lparr>t_id = nextTimer sA, t_scheduledChatKey = kB, t_delay = dB\<rparr>]
                \<and> fireTimer (nextTimer s) wF sB = sB
                \<and> store sB = store s
                \<and> sF = (snd (performBackupConditional wF (emit [GetContext] (sB\<lparr>timers := []\<rparr>))))
                          \<lparr>backupTimeout := None\<rparr>
                \<and> timers sF = []
                \<and> (\<forall>x\<in>set (store sF). chatKey x = kA \<longrightarrow> x \<in> set (store s)))"
      unfolding Let_def
      by (intro conjI) (rule tA tB gone stB fire none zero)+
  qed
  show ?thesis
    by (intro conjI) (rule c1 c2 c3 c4 c5 c6 c7 c8)+
qed

theorem debounce_reschedules_witness:
  "timer_tracked ex_state
   \<and> getCurrentChatKey ex_world = Some ''char_0_chat1'' \<and> delayOf ex_world = Some 1000
   \<and> getCurrentChatKey ex_world_other = Some ''char_1_other'' \<and> delayOf ex_world_other = Some 1000
   \<and> timers (performBackupDebounced ex_world ex_state)
        = [\<lparr>t_id = 0, t_scheduledChatKey = ''char_0_chat1'', t_delay = 1000\<rparr>]
   \<and> timers (performBackupDebounced ex_world_other (performBackupDebounced ex_world ex_state))
        = [\<lparr>t_id = nextTimer (performBackupDebounced ex_world ex_state),
            t_scheduledChatKey = ''char_1_other'', t_delay = 1000\<rparr>]
   \<and> timers (fireTimer (nextTimer (performBackupDebounced ex_world ex_state)) ex_world_other
        (performBackupDebounced ex_world_other (performBackupDebounced ex_world ex_state))) = []"
proof -
  have tr: "timer_tracked ex_state" by (simp add: timer_tracked_def ex_state_def)
  have kA: "getCurrentChatKey ex_world = Some ''char_0_chat1''"
    by (simp add: getCurrentChatKey_def ex_world_def ex_context_def template_def)
  have n: "nextTimer ex_state = 0" by (simp add: ex_state_def)
  have ne: "''char_0_chat1'' \<noteq> ''char_1_other''" by simp
  from debounce_reschedules[OF tr, of ex_world]
  have "\<forall>wA wB wF kA kB dA dB.
            getCurrentChatKey wA = Some kA \<and> delayOf wA = Some dA
            \<and> getCurrentChatKey wB = Some kB \<and> delayOf wB = Some dB
            \<and> kA \<noteq> kB \<and> getCurrentChatKey wF = Some kB \<longrightarrow>
            (let sA = performBackupDebounced wA ex_state;
                 sB = performBackupDebounced wB sA;
                 sF = fireTimer (nextTimer sA) wF sB
             in timers sA = [\<lparr>t_id = nextTimer ex_state, t_scheduledChatKey = kA, t_delay = dA\<rparr>]
                \<and> timers sB = [\<lparr>t_id = nextTimer sA, t_scheduledChatKey = kB, t_delay = dB\<rparr>]
                \<and> fireTimer (nextTimer ex_state) wF sB = sB
                \<and> store sB = store ex_state
                \<and> sF = (snd (performBackupConditional wF (emit [GetContext] (sB\<lparr>timers := []\<rparr>))))
                          \<lparr>backupTimeout := None\<rparr>
                \<and> timers sF = []
                \<and> (\<forall>x\<in>set (store sF). chatKey x = kA \<longrightarrow> x \<in> set (store ex_state)))"
    by (elim conjE)
  from this[rule_format, of ex_world "''char_0_chat1''" 1000 ex_world_other "''char_1_other''" 1000 ex_world_other]
    kA ex_other_key ex_delays ne
  have "timers (performBackupDebounced ex_world ex_state)
        = [\<lparr>t_id = nextTimer ex_state, t_scheduledChatKey = ''char_0_chat1'', t_delay = 1000\<rparr>]
   \<and> timers (performBackupDebounced ex_world_other (performBackupDebounced ex_world ex_state))
        = [\<lparr>t_id = nextTimer (performBackupDebounced ex_world ex_state),
            t_scheduledChatKey = ''char_1_other'', t_delay = 1000\<rparr>]
   \<and> timers (fireTimer (nextTimer (performBackupDebounced ex_world ex_state)) ex_world_other
        (performBackupDebounced ex_world_other (performBackupDebounced ex_world ex_state))) = []"
    unfolding Let_def by blast
  with tr kA ex_other_key ex_delays n show ?thesis by simp
qed

text \<open>
  The claim as stated, for every debounced trigger, fails for a trigger that arrives
  while no chat is open: the pending timer is cancelled and no new one is started.
\<close>

theorem no_timer_without_chat:
  "getCurrentChatKey ex_world_idle = None
   \<and> timers ex_state_pending = [\<lparr>t_id = 0, t_scheduledChatKey = ''char_0_chat1'', t_delay = 1000\<rparr>]
   \<and> timers (performBackupDebounced ex_world_idle ex_state_pending) = []
   \<and> backupTimeout (performBackupDebounced ex_world_idle ex_state_pending) = None"
proof -
  have k: "getCurrentChatKey ex_world_idle = None"
    by (simp add: getCurrentChatKey_def ex_world_idle_def ex_world_def ex_context_idle_def)
  have t: "timers ex_state_pending = [\<lparr>t_id = 0, t_scheduledChatKey = ''char_0_chat1'', t_delay = 1000\<rparr>]"
    by (simp add: ex_state_pending_def ex_state_def)
  have "performBackupDebounced ex_world_idle ex_state_pending
      = (clearTimeout (Some 0) (emit [GetContext] ex_state_pending))\<lparr>backupTimeout := None\<rparr>"
    by (simp add: performBackupDebounced_def k Let_def emit_def ex_state_pending_def ex_state_def)
  then have "timers (performBackupDebounced ex_world_idle ex_state_pending) = []"
    "backupTimeout (performBackupDebounced ex_world_idle ex_state_pending) = None"
    by (simp_all add: clearTimeout_def emit_def ex_state_pending_def ex_state_def)
  with k t show ?thesis by simp
qed

subsection \<open>C6: the lines of a restored character chat\<close>

text \<open>
  C6. For a snapshot of a character chat (not a group) whose payload is
  \<^verbatim>\<open>[{chat_metadata:{x:1}}, m1, m2]\<close>, step 2 of the restore builds exactly the text
  \<^verbatim>\<open>{"chat_metadata":{"x":1}}\<close>, a line feed, the serialisation of \<^verbatim>\<open>m1\<close>, a line
  feed, the serialisation of \<^verbatim>\<open>m2\<close>, a line feed. A serialisation contains no line
  feed, so these are three lines, no more and no fewer; the chat that goes to
  \<^verbatim>\<open>/api/chats/save\<close> is the same three records; and the members of an object are
  serialised in their order.
\<close>

theorem roundtrip_lines:
  "buildJsonl (b\<lparr>isGroup := False,
       rawChatData := JArr [JObj [(''chat_metadata'', JObj [(''x'', JNum 1)])], m1, m2]\<rparr>)
     = Inr (''{'' @ [CHR 0x22] @ ''chat_metadata'' @ [CHR 0x22] @ '':{'' @ [CHR 0x22] @ ''x'' @ [CHR 0x22]
              @ '':1}}'' @ [CHR 0x0A]
            @ stringify m1 @ [CHR 0x0A]
            @ stringify m2 @ [CHR 0x0A],
            JObj [(''x'', JNum 1)], [m1, m2])
   \<and> count_list (''{'' @ [CHR 0x22] @ ''chat_metadata'' @ [CHR 0x22] @ '':{'' @ [CHR 0x22] @ ''x'' @ [CHR 0x22]
              @ '':1}}'' @ [CHR 0x0A]
            @ stringify m1 @ [CHR 0x0A]
            @ stringify m2 @ [CHR 0x0A]) (CHR 0x0A) = 3
   \<and> CHR 0x0A \<notin> set (stringify m1) \<and> CHR 0x0A \<notin> set (stringify m2)
   \<and> chatToSave (JObj [(''x'', JNum 1)]) [m1, m2]
       = [JObj [(''chat_metadata'', JObj [(''x'', JNum 1)])], m1, m2]
   \<and> stringify (JObj fs) = ''{'' @ join (map (\<lambda>(k, v). quote k @ '':'' @ stringify v) fs) @ ''}''"
proof -
  let ?line = "''{'' @ [CHR 0x22] @ ''chat_metadata'' @ [CHR 0x22] @ '':{'' @ [CHR 0x22] @ ''x'' @ [CHR 0x22]
              @ '':1}}''"
  have first: "stringify (JObj [(''chat_metadata'', JObj [(''x'', JNum 1)])]) = ?line"
    by (simp add: quote_def escape_char_def show_int_def)
  have j: "jsonl (JObj [(''chat_metadata'', JObj [(''x'', JNum 1)])]) [m1, m2]
      = ?line @ [CHR 0x0A] @ stringify m1 @ [CHR 0x0A] @ stringify m2 @ [CHR 0x0A]"
    unfolding jsonl_def first by simp
  have b: "buildJsonl (b\<lparr>isGroup := False,
       rawChatData := JArr [JObj [(''chat_metadata'', JObj [(''x'', JNum 1)])], m1, m2]\<rparr>)
     = Inr (?line @ [CHR 0x0A] @ stringify m1 @ [CHR 0x0A] @ stringify m2 @ [CHR 0x0A],
            JObj [(''x'', JNum 1)], [m1, m2])"
    unfolding buildJsonl_character j[symmetric] by (simp add: or_empty_object_def)
  have c: "count_list (?line @ [CHR 0x0A] @ stringify m1 @ [CHR 0x0A] @ stringify m2 @ [CHR 0x0A]) (CHR 0x0A) = 3"
    unfolding j[symmetric] by (simp add: count_lf_jsonl)
  have s: "chatToSave (JObj [(''x'', JNum 1)]) [m1, m2]
       = [JObj [(''chat_metadata'', JObj [(''x'', JNum 1)])], m1, m2]"
    by (simp add: chatToSave_def)
  have o: "stringify (JObj fs) = ''{'' @ join (map (\<lambda>(k, v). quote k @ '':'' @ stringify v) fs) @ ''}''"
    by (simp add: stringify_members_map)
  show ?thesis
    using b c s o stringify_no_lf(1)[of m1] stringify_no_lf(1)[of m2] by simp
qed

theorem roundtrip_lines_witness:
  "buildJsonl (ex_new\<lparr>isGroup := False,
       rawChatData := JArr [JObj [(''chat_metadata'', JObj [(''x'', JNum 1)])],
                            JObj [(''mes'', JStr ''hi'')], JNull]\<rparr>)
     = Inr (''{'' @ [CHR 0x22] @ ''chat_metadata'' @ [CHR 0x22] @ '':{'' @ [CHR 0x22] @ ''x'' @ [CHR 0x22]
              @ '':1}}'' @ [CHR 0x0A]
            @ ''{'' @ [CHR 0x22] @ ''mes'' @ [CHR 0x22] @ '':'' @ [CHR 0x22] @ ''hi'' @ [CHR 0x22] @ ''}''
              @ [CHR 0x0A]
            @ ''null'' @ [CHR 0x0A],
            JObj [(''x'', JNum 1)], [JObj [(''mes'', JStr ''hi'')], JNull])"
proof -
  from roundtrip_lines[where b = ex_new and ?m1.0 = "JObj [(''mes'', JStr ''hi'')]" and ?m2.0 = JNull and fs = "[]"]
  have "buildJsonl (ex_new\<lparr>isGroup := False,
       rawChatData := JArr [JObj [(''chat_metadata'', JObj [(''x'', JNum 1)])],
                            JObj [(''mes'', JStr ''hi'')], JNull]\<rparr>)
     = Inr (''{'' @ [CHR 0x22] @ ''chat_metadata'' @ [CHR 0x22] @ '':{'' @ [CHR 0x22] @ ''x'' @ [CHR 0x22]
              @ '':1}}'' @ [CHR 0x0A]
            @ stringify (JObj [(''mes'', JStr ''hi'')]) @ [CHR 0x0A]
            @ stringify JNull @ [CHR 0x0A],
            JObj [(''x'', JNum 1)], [JObj [(''mes'', JStr ''hi'')], JNull])"
    by (elim conjE)
  then show ?thesis by (simp add: quote_def escape_char_def)
qed

subsection \<open>C7: no chat, or an empty chat\<close>

text \<open>
  C7. When the host reports no valid chat key, or the open chat has no message, the
  backup cycle ends as a silent skip: \<^verbatim>\<open>executeBackupLogic_Core\<close> returns
  \<^verbatim>\<open>false\<close> and \<^verbatim>\<open>performBackupConditional\<close> does not return \<^verbatim>\<open>true\<close> (it
  returns \<^verbatim>\<open>false\<close> unless a cycle is running); neither throws, neither shows an
  error to the user or sends a request to the store (they only read the context), and the
  store is unchanged.
\<close>

theorem skip_without_chat:
  assumes "getCurrentChatKey w = None \<or> chatIsEmpty (getContext w)"
  shows "fst (executeBackupLogic_Core settings w s) = Returned False
       \<and> store (snd (executeBackupLogic_Core settings w s)) = store s
       \<and> filter is_error_toast (calls (snd (executeBackupLogic_Core settings w s))) = filter is_error_toast (calls s)
       \<and> filter is_store_write (calls (snd (executeBackupLogic_Core settings w s))) = filter is_store_write (calls s)
       \<and> (\<exists>n. calls (snd (executeBackupLogic_Core settings w s)) = calls s @ replicate n GetContext)
       \<and> fst (performBackupConditional w s) \<noteq> Some True
       \<and> (\<not> isBackupInProgress s \<longrightarrow> fst (performBackupConditional w s) = Some False)
       \<and> store (snd (performBackupConditional w s)) = store s
       \<and> filter is_error_toast (calls (snd (performBackupConditional w s))) = filter is_error_toast (calls s)
       \<and> filter is_store_write (calls (snd (performBackupConditional w s))) = filter is_store_write (calls s)
       \<and> (\<exists>n. calls (snd (performBackupConditional w s)) = calls s @ replicate n GetContext)"
proof -
  from Core_skip[OF assms, of settings s] obtain n where
    c: "executeBackupLogic_Core settings w s = (Returned False, emit (replicate n GetContext) s)" ..
  have p: "performBackupConditional w s =
      (if isBackupInProgress s then (None, s) else (Some False, emit (replicate 2 GetContext) s))"
    using assms by (auto simp: performBackupConditional_def Let_def numeral_2_eq_2)
  obtain m where pm: "calls (snd (performBackupConditional w s)) = calls s @ replicate m GetContext"
  proof (cases "isBackupInProgress s")
    case True
    then have "calls (snd (performBackupConditional w s)) = calls s @ replicate 0 GetContext"
      by (simp add: p)
    then show ?thesis by (rule that)
  next
    case False
    then have "calls (snd (performBackupConditional w s)) = calls s @ replicate 2 GetContext"
      by (simp add: p emit_def)
    then show ?thesis by (rule that)
  qed
  have cn: "calls (snd (executeBackupLogic_Core settings w s)) = calls s @ replicate n GetContext"
    by (simp add: c emit_def)
  have "fst (executeBackupLogic_Core settings w s) = Returned False"
    "store (snd (executeBackupLogic_Core settings w s)) = store s"
    by (simp_all add: c emit_def)
  moreover have "filter is_error_toast (calls (snd (executeBackupLogic_Core settings w s))) = filter is_error_toast (calls s)"
    "filter is_store_write (calls (snd (executeBackupLogic_Core settings w s))) = filter is_store_write (calls s)"
    by (simp_all add: cn replicate_GetContext_quiet)
  moreover have "fst (performBackupConditional w s) \<noteq> Some True"
    "\<not> isBackupInProgress s \<longrightarrow> fst (performBackupConditional w s) = Some False"
    "store (snd (performBackupConditional w s)) = store s"
    by (simp_all add: p emit_def)
  moreover have "filter is_error_toast (calls (snd (performBackupConditional w s))) = filter is_error_toast (calls s)"
    "filter is_store_write (calls (snd (performBackupConditional w s))) = filter is_store_write (calls s)"
    by (simp_all add: pm replicate_GetContext_quiet)
  ultimately show ?thesis using cn pm by blast
qed

theorem skip_without_chat_witness:
  "(getCurrentChatKey ex_world_idle = None \<or> chatIsEmpty (getContext ex_world_idle))
   \<and> fst (executeBackupLogic_Core ex_settings ex_world_idle ex_state) = Returned False
   \<and> store (snd (executeBackupLogic_Core ex_settings ex_world_idle ex_state)) = store ex_state
   \<and> fst (performBackupConditional ex_world_idle ex_state) = Some False
   \<and> store (snd (performBackupConditional ex_world_idle ex_state)) = store ex_state"
proof -
  have h: "getCurrentChatKey ex_world_idle = None \<or> chatIsEmpty (getContext ex_world_idle)"
    by (simp add: getCurrentChatKey_def ex_world_idle_def ex_world_def ex_context_idle_def)
  have i: "\<not> isBackupInProgress ex_state" by (simp add: ex_state_def)
  from skip_without_chat[OF h, of ex_settings ex_state] i h show ?thesis by blast
qed

subsection \<open>C8: a malformed answer to the request for the chat\<close>

text \<open>
  C8 says that the snapshot builder does not fail when \<^verbatim>\<open>/api/chats/get\<close> returns a
  malformed shape (not an array, an empty array, or an array whose first element lacks
  \<^verbatim>\<open>chat_metadata\<close>), and that it substitutes the cached metadata. For an empty array
  and for an array whose first element has no \<^verbatim>\<open>chat_metadata\<close> the code does so
  (\<open>validate_empty_array\<close>, \<open>validate_array_without_metadata\<close>). For a value that is
  not an array the code enters the same fallback and then reads
  \<^verbatim>\<open>rawChatData[0].chat_metadata\<close>, which throws. The theorem evaluates the cycle
  when the host answers with the empty object, its answer for a chat file that does not
  exist: the check throws a \<^verbatim>\<open>TypeError\<close>, the cycle throws, nothing is stored, and
  \<^verbatim>\<open>performBackupConditional\<close> reports the failure to the user and returns
  \<^verbatim>\<open>false\<close>.
\<close>

theorem builder_throws_on_missing_file:
  "fetched ex_world_missing_file = Body (JObj [])
   \<and> validateRawChatData (getContext ex_world_missing_file) (JObj []) = Inl TypeError
   \<and> executeBackupLogic_Core ex_settings ex_world_missing_file ex_state
       = (Threw TypeError, emit [GetContext, GetContext, GetContext, Fetch ''/api/chats/get''] ex_state)
   \<and> fst (performBackupConditional ex_world_missing_file ex_state) = Some False
   \<and> filter is_error_toast (calls (snd (performBackupConditional ex_world_missing_file ex_state)))
       = [Toastr ToastError]
   \<and> store (snd (performBackupConditional ex_world_missing_file ex_state)) = store ex_state"
proof -
  have c: "getContext ex_world_missing_file = ex_context" "characters ex_world_missing_file = [ex_character]"
    by (simp_all add: ex_world_missing_file_def ex_world_def)
  have idle: "\<not> isBackupInProgress ex_state" by (simp add: ex_state_def)
  have a: "getCurrentChatKey ex_world_missing_file \<noteq> None" "\<not> chatIsEmpty (getContext ex_world_missing_file)"
    "extension_settings ex_world_missing_file = Some ex_settings"
    using ex_like(1,3)[OF c] by (simp_all add: ex_world_missing_file_def ex_world_def)
  have p: "performBackupConditional ex_world_missing_file ex_state =
      (Some False, releaseLock (emit [Toastr ToastError]
         (emit [GetContext, GetContext, GetContext, Fetch ''/api/chats/get'']
            ((emit [GetContext, GetContext] ex_state)\<lparr>isBackupInProgress := True\<rparr>))))"
    unfolding performBackupConditional_active[OF idle a]
    by (simp add: tryBackup_def ex_missing_file_core)
  have "fetched ex_world_missing_file = Body (JObj [])"
    by (simp add: ex_world_missing_file_def)
  moreover have "validateRawChatData (getContext ex_world_missing_file) (JObj []) = Inl TypeError"
    by (rule validate_object_without_index) simp_all
  moreover have "fst (performBackupConditional ex_world_missing_file ex_state) = Some False"
    "filter is_error_toast (calls (snd (performBackupConditional ex_world_missing_file ex_state))) = [Toastr ToastError]"
    "store (snd (performBackupConditional ex_world_missing_file ex_state)) = store ex_state"
    unfolding p by (simp_all add: releaseLock_def emit_def ex_state_def)
  ultimately show ?thesis using ex_missing_file_core[of ex_settings ex_state] by simp
qed

subsection \<open>C9: a restore leaves the store alone\<close>

text \<open>
  C9. Whatever the environment of a restore is (the user cancels, a call to the host
  fails at any step, the snapshot is malformed, or everything succeeds),
  \<^verbatim>\<open>restoreBackup\<close> leaves the object store as it was and sends no request that writes
  to it: it only records calls to the host and to the user interface. So reading the
  source snapshot from the store after the restore gives what it gave before, and a failed
  restore can be tried again. The lock of the backup cycle is not touched either.
\<close>

theorem restore_leaves_store:
  "store (snd (restoreBackup rw backupData s)) = store s
   \<and> (\<exists>es. calls (snd (restoreBackup rw backupData s)) = calls s @ es \<and> filter is_store_write es = [])
   \<and> getBackupFromDB f (chatKey backupData) (timestamp backupData) (store (snd (restoreBackup rw backupData s)))
       = getBackupFromDB f (chatKey backupData) (timestamp backupData) (store s)
   \<and> isBackupInProgress (snd (restoreBackup rw backupData s)) = isBackupInProgress s"
proof -
  note r = restoreBackup_calls[of s rw backupData]
  from only_calls_store[OF r] have st: "store (snd (restoreBackup rw backupData s)) = store s"
    and c: "same_control s (snd (restoreBackup rw backupData s))" by simp_all
  from only_calls_calls[OF r] have
    "\<exists>es. calls (snd (restoreBackup rw backupData s)) = calls s @ es \<and> filter is_store_write es = []" .
  with st c show ?thesis by (simp add: same_control_def)
qed

theorem restore_leaves_store_witness:
  "fst (restoreBackup ex_restore_world ex_old ex_state) = Returned False
   \<and> store (snd (restoreBackup ex_restore_world ex_old ex_state)) = [ex_old]
   \<and> getBackupFromDB Completes (chatKey ex_old) (timestamp ex_old)
        (store (snd (restoreBackup ex_restore_world ex_old ex_state))) = Returned (Some ex_old)"
proof -
  from restore_leaves_store[of ex_restore_world ex_old ex_state Completes]
  have "store (snd (restoreBackup ex_restore_world ex_old ex_state)) = store ex_state" by (elim conjE)
  then have s: "store (snd (restoreBackup ex_restore_world ex_old ex_state)) = [ex_old]"
    by (simp add: ex_state_def)
  have "getBackupFromDB Completes (chatKey ex_old) (timestamp ex_old) [ex_old] = Returned (Some ex_old)"
    by (simp add: getBackupFromDB_def key_of_def)
  with s ex_restore_fails show ?thesis by simp
qed

subsection \<open>C10: the first record is rebuilt\<close>

text \<open>
  C10. For a snapshot of a character chat whose first payload element is an object with
  the members \<open>fs\<close>, the first line of the rebuilt chat and the first record of the chat
  that is saved are the object with the single member \<^verbatim>\<open>chat_metadata\<close>: its value is
  the \<^verbatim>\<open>chat_metadata\<close> of the first element when that is present (and truthy), and
  the empty object when the first element has no such member. The other members of the
  first element are dropped, so whenever the first element has a member other than
  \<^verbatim>\<open>chat_metadata\<close>, or none named \<^verbatim>\<open>chat_metadata\<close>, the rebuilt record differs
  from it: the reconstruction is not the identity on the first record.
\<close>

theorem metadata_line_only_chat_metadata:
  "buildJsonl (b\<lparr>isGroup := False, rawChatData := JArr (JObj fs # msgs)\<rparr>)
     = Inr (stringify (JObj [(''chat_metadata'', or_empty_object (map_of fs ''chat_metadata''))]) @ [CHR 0x0A]
              @ concat (map (\<lambda>msg. stringify msg @ [CHR 0x0A]) msgs),
            or_empty_object (map_of fs ''chat_metadata''), msgs)
   \<and> chatToSave (or_empty_object (map_of fs ''chat_metadata'')) msgs
       = JObj [(''chat_metadata'', or_empty_object (map_of fs ''chat_metadata''))] # msgs
   \<and> (\<forall>v. map_of fs ''chat_metadata'' = Some v \<and> truthy v \<longrightarrow>
          or_empty_object (map_of fs ''chat_metadata'') = v)
   \<and> (map_of fs ''chat_metadata'' = None \<longrightarrow>
          or_empty_object (map_of fs ''chat_metadata'') = JObj []
          \<and> JObj [(''chat_metadata'', or_empty_object (map_of fs ''chat_metadata''))] \<noteq> JObj fs)
   \<and> ((\<exists>k v. (k, v) \<in> set fs \<and> k \<noteq> ''chat_metadata'') \<longrightarrow>
          JObj [(''chat_metadata'', or_empty_object (map_of fs ''chat_metadata''))] \<noteq> JObj fs)"
proof -
  let ?md = "or_empty_object (map_of fs ''chat_metadata'')"
  have b: "buildJsonl (b\<lparr>isGroup := False, rawChatData := JArr (JObj fs # msgs)\<rparr>)
     = Inr (stringify (JObj [(''chat_metadata'', ?md)]) @ [CHR 0x0A]
              @ concat (map (\<lambda>msg. stringify msg @ [CHR 0x0A]) msgs), ?md, msgs)"
    unfolding buildJsonl_character by (simp add: jsonl_def)
  have c: "chatToSave ?md msgs = JObj [(''chat_metadata'', ?md)] # msgs"
    by (simp add: chatToSave_def)
  have t: "\<forall>v. map_of fs ''chat_metadata'' = Some v \<and> truthy v \<longrightarrow> ?md = v"
    by (simp add: or_empty_object_def)
  have n: "map_of fs ''chat_metadata'' = None \<longrightarrow> ?md = JObj [] \<and> JObj [(''chat_metadata'', ?md)] \<noteq> JObj fs"
    by (auto simp: or_empty_object_def)
  have d: "(\<exists>k v. (k, v) \<in> set fs \<and> k \<noteq> ''chat_metadata'') \<longrightarrow> JObj [(''chat_metadata'', ?md)] \<noteq> JObj fs"
  proof (intro impI notI, elim exE conjE)
    fix k v assume a: "(k, v) \<in> set fs" "k \<noteq> ''chat_metadata''"
      and e: "JObj [(''chat_metadata'', ?md)] = JObj fs"
    from e have "map fst fs = map fst [(''chat_metadata'', ?md)]" by simp
    then have "fst ` set fs = {''chat_metadata''}" by (simp flip: set_map)
    with a show False by force
  qed
  show ?thesis
    by (intro conjI) (rule b c t n d)+
qed

theorem metadata_line_only_chat_metadata_witness:
  "map_of [(''user_name'', JStr ''Ann''), (''chat_metadata'', JObj [(''x'', JNum 1)])] ''chat_metadata''
      = Some (JObj [(''x'', JNum 1)])
   \<and> truthy (JObj [(''x'', JNum 1)])
   \<and> buildJsonl (ex_new\<lparr>isGroup := False,
        rawChatData := JArr (JObj [(''user_name'', JStr ''Ann''), (''chat_metadata'', JObj [(''x'', JNum 1)])]
                              # [JObj [(''mes'', JStr ''hi'')]])\<rparr>)
      = Inr (stringify (JObj [(''chat_metadata'', JObj [(''x'', JNum 1)])]) @ [CHR 0x0A]
               @ stringify (JObj [(''mes'', JStr ''hi'')]) @ [CHR 0x0A],
             JObj [(''x'', JNum 1)], [JObj [(''mes'', JStr ''hi'')]])
   \<and> JObj [(''chat_metadata'', JObj [(''x'', JNum 1)])]
       \<noteq> JObj [(''user_name'', JStr ''Ann''), (''chat_metadata'', JObj [(''x'', JNum 1)])]"
proof -
  let ?fs = "[(''user_name'', JStr ''Ann''), (''chat_metadata'', JObj [(''x'', JNum 1)])]"
  have m: "map_of ?fs ''chat_metadata'' = Some (JObj [(''x'', JNum 1)])" by simp
  have md: "or_empty_object (map_of ?fs ''chat_metadata'') = JObj [(''x'', JNum 1)]"
    by (simp add: or_empty_object_def)
  from metadata_line_only_chat_metadata[where b = ex_new and fs = ?fs and msgs = "[JObj [(''mes'', JStr ''hi'')]]"]
  have "buildJsonl (ex_new\<lparr>isGroup := False, rawChatData := JArr (JObj ?fs # [JObj [(''mes'', JStr ''hi'')]])\<rparr>)
     = Inr (stringify (JObj [(''chat_metadata'', or_empty_object (map_of ?fs ''chat_metadata''))]) @ [CHR 0x0A]
              @ concat (map (\<lambda>msg. stringify msg @ [CHR 0x0A]) [JObj [(''mes'', JStr ''hi'')]]),
            or_empty_object (map_of ?fs ''chat_metadata''), [JObj [(''mes'', JStr ''hi'')]])"
    by (elim conjE)
  then show ?thesis unfolding md using m by simp
qed

end
